theory Spec2Isabelle
  imports Main "HOL-Library.Word" "HOL-Library.Multiset" "HOL-Library.AList"
begin

unbundle bit_operations_syntax

section \<open>Shared constants (dp3t/config.py)\<close>

definition RETENTION_PERIOD :: nat where
  "RETENTION_PERIOD = 21"

definition EPOCH_LENGTH :: int where
  "EPOCH_LENGTH = 15"

definition NUM_EPOCHS_PER_DAY :: nat where
  "NUM_EPOCHS_PER_DAY = 1440 div 15"

definition LENGTH_EPHID :: nat where
  "LENGTH_EPHID = 16"

definition SECONDS_PER_DAY :: int where
  "SECONDS_PER_DAY = 24 * 60 * 60"

text \<open>Length of a batch in the low-cost design (lowcost.py).\<close>

definition SECONDS_PER_BATCH :: int where
  "SECONDS_PER_BATCH = 2 * 60 * 60"

section \<open>Errors, times, byte strings\<close>

text \<open>
  Every exception the code itself raises is a \<open>ValueError\<close> carrying a message; the
  list accesses of Python can raise \<open>IndexError\<close>, the dictionary accesses
  \<open>KeyError\<close> and \<open>int.to_bytes\<close> \<open>OverflowError\<close>.
\<close>

datatype error = ValueError string | IndexError | KeyError | OverflowError

text \<open>
  Python's \<open>a / b\<close> on integers is the double nearest to the quotient, ties to the
  even mantissa. A double is held here as a fraction: a numerator and a denominator that
  is a power of two. For a quotient between \<open>2^e\<close> and \<open>2^(e+1)\<close> the mantissa is
  the quotient scaled by \<open>2^(52-e)\<close> and rounded to an integer. (Overflow and
  subnormal numbers are out of reach of the quotients taken here.)
\<close>

fun ilog2 :: "nat \<Rightarrow> nat" where
  "ilog2 n = (if n < 2 then 0 else Suc (ilog2 (n div 2)))"

declare ilog2.simps [simp del]

definition round_half_even :: "nat \<Rightarrow> nat \<Rightarrow> nat" where
  "round_half_even p q =
     (if 2 * (p mod q) < q then p div q
      else if q < 2 * (p mod q) then p div q + 1
      else if even (p div q) then p div q else p div q + 1)"

definition double_exponent :: "nat \<Rightarrow> nat \<Rightarrow> int" where
  "double_exponent n d =
     (if d \<le> n then int (ilog2 (n div d)) else - int (ilog2 ((d - 1) div n) + 1))"

definition true_div_nat :: "nat \<Rightarrow> nat \<Rightarrow> nat \<times> nat" where
  "true_div_nat n d =
     (if n = 0 then (0, 1)
      else if double_exponent n d \<le> 52
      then (round_half_even (n * 2 ^ nat (52 - double_exponent n d)) d,
            2 ^ nat (52 - double_exponent n d))
      else (round_half_even n (d * 2 ^ nat (double_exponent n d - 52))
              * 2 ^ nat (double_exponent n d - 52), 1))"

definition true_div :: "int \<Rightarrow> nat \<Rightarrow> int \<times> nat" where
  "true_div a b =
     (case true_div_nat (nat \<bar>a\<bar>) b of (m, d) \<Rightarrow> (if a < 0 then - int m else int m, d))"

text \<open>\<open>int(x)\<close> of a double truncates towards zero; \<open>x // c\<close> is the floor of the quotient.\<close>

definition float_int :: "int \<times> nat \<Rightarrow> int" where
  "float_int x = (case x of (m, d) \<Rightarrow> if 0 \<le> m then m div int d else - ((- m) div int d))"

definition float_floordiv :: "int \<times> nat \<Rightarrow> int \<Rightarrow> int" where
  "float_floordiv x c = (case x of (m, d) \<Rightarrow> m div (int d * c))"

text \<open>
  A \<open>datetime\<close> is an instant, held as the number of microseconds since the Unix epoch
  (the resolution of Python's datetime; the tests use timezone-aware UTC values, and
  Python's datetimes range over the years 1 to 9999). \<open>time.timestamp()\<close> of an aware
  datetime is the number of microseconds since the epoch divided by \<open>10^6\<close>, as a
  double.
\<close>

type_synonym datetime = int

definition valid_datetime :: "datetime \<Rightarrow> bool" where
  "valid_datetime t \<longleftrightarrow> - 62135596800000000 \<le> t \<and> t \<le> 253402300799999999"

text \<open>
  The times on which the double is exact enough to name the right second: every time
  from 1970 to \<open>2^34\<close> seconds (in the year 2514), and every datetime on a whole
  second.
\<close>

definition exact_time :: "datetime \<Rightarrow> bool" where
  "exact_time t \<longleftrightarrow>
     (0 \<le> t \<and> t < 17179869184000000) \<or> (t mod 1000000 = 0 \<and> valid_datetime t)"

definition timestamp :: "datetime \<Rightarrow> int \<times> nat" where
  "timestamp t = true_div t 1000000"

definition timestamp_int :: "datetime \<Rightarrow> int" where
  "timestamp_int t = float_int (timestamp t)"

definition day_start_from_time :: "datetime \<Rightarrow> int" where
  "day_start_from_time t = (timestamp_int t div SECONDS_PER_DAY) * SECONDS_PER_DAY"

definition batch_start_from_time :: "datetime \<Rightarrow> int" where
  "batch_start_from_time t = (timestamp_int t div SECONDS_PER_BATCH) * SECONDS_PER_BATCH"

text \<open>
  A byte is a natural number below 256 and a Python \<open>bytes\<close> value is a list of them.
  The 32-bit words of SHA-256 are natural numbers below \<open>2^32\<close>, with the wrap-around
  of every addition written out.
\<close>

type_synonym byte = nat
type_synonym bytes = "byte list"
type_synonym u32 = nat

section \<open>The library primitives the code calls\<close>

subsection \<open>hashlib.sha256 (FIPS 180-4)\<close>

definition add32 :: "u32 \<Rightarrow> u32 \<Rightarrow> u32" where
  "add32 x y = (x + y) mod 4294967296"

definition rotr :: "nat \<Rightarrow> u32 \<Rightarrow> u32" where
  "rotr n x = x div 2 ^ n + (x mod 2 ^ n) * 2 ^ (32 - n)"

definition shr :: "nat \<Rightarrow> u32 \<Rightarrow> u32" where
  "shr n x = x div 2 ^ n"

definition not32 :: "u32 \<Rightarrow> u32" where
  "not32 x = 4294967295 - x"

definition Ch :: "u32 \<Rightarrow> u32 \<Rightarrow> u32 \<Rightarrow> u32" where
  "Ch x y z = (x AND y) XOR (not32 x AND z)"

definition Maj :: "u32 \<Rightarrow> u32 \<Rightarrow> u32 \<Rightarrow> u32" where
  "Maj x y z = (x AND y) XOR (x AND z) XOR (y AND z)"

definition Sigma0 :: "u32 \<Rightarrow> u32" where
  "Sigma0 x = rotr 2 x XOR rotr 13 x XOR rotr 22 x"

definition Sigma1 :: "u32 \<Rightarrow> u32" where
  "Sigma1 x = rotr 6 x XOR rotr 11 x XOR rotr 25 x"

definition sigma0 :: "u32 \<Rightarrow> u32" where
  "sigma0 x = rotr 7 x XOR rotr 18 x XOR shr 3 x"

definition sigma1 :: "u32 \<Rightarrow> u32" where
  "sigma1 x = rotr 17 x XOR rotr 19 x XOR shr 10 x"

definition sha256_K :: "u32 list" where
  "sha256_K = [
   1116352408, 1899447441, 3049323471, 3921009573, 961987163, 1508970993, 2453635748, 2870763221,
   3624381080, 310598401, 607225278, 1426881987, 1925078388, 2162078206, 2614888103, 3248222580,
   3835390401, 4022224774, 264347078, 604807628, 770255983, 1249150122, 1555081692, 1996064986,
   2554220882, 2821834349, 2952996808, 3210313671, 3336571891, 3584528711, 113926993, 338241895,
   666307205, 773529912, 1294757372, 1396182291, 1695183700, 1986661051, 2177026350, 2456956037,
   2730485921, 2820302411, 3259730800, 3345764771, 3516065817, 3600352804, 4094571909, 275423344,
   430227734, 506948616, 659060556, 883997877, 958139571, 1322822218, 1537002063, 1747873779,
   1955562222, 2024104815, 2227730452, 2361852424, 2428436474, 2756734187, 3204031479, 3329325298]"

definition sha256_H0 :: "u32 list" where
  "sha256_H0 = [1779033703, 3144134277, 1013904242, 2773480762,
                1359893119, 2600822924, 528734635, 1541459225]"

definition next_w :: "u32 list \<Rightarrow> u32" where
  "next_w w = add32 (add32 (add32 (sigma1 (w ! 14)) (w ! 9)) (sigma0 (w ! 1))) (w ! 0)"

fun sha_round2 :: "u32 \<Rightarrow> u32 \<Rightarrow> u32 list \<Rightarrow> u32 list" where
  "sha_round2 t1 t2 [a, b, c, d, e, f, g, h] = [add32 t1 t2, a, b, c, add32 d t1, e, f, g]"
| "sha_round2 t1 t2 s = s"

fun sha_round :: "u32 \<Rightarrow> u32 \<Rightarrow> u32 list \<Rightarrow> u32 list" where
  "sha_round k w [a, b, c, d, e, f, g, h] =
     sha_round2 (add32 (add32 (add32 (add32 h (Sigma1 e)) (Ch e f g)) k) w) (add32 (Sigma0 a) (Maj a b c))
        [a, b, c, d, e, f, g, h]"
| "sha_round k w s = s"

fun sha_rounds :: "u32 list \<Rightarrow> u32 list \<Rightarrow> u32 list \<Rightarrow> u32 list" where
  "sha_rounds [] w s = s"
| "sha_rounds (k # ks) w s = sha_rounds ks (tl w @ [next_w w]) (sha_round k (hd w) s)"

definition sha_compress :: "u32 list \<Rightarrow> u32 list \<Rightarrow> u32 list" where
  "sha_compress h m = map2 add32 h (sha_rounds sha256_K m h)"

definition be_word :: "bytes \<Rightarrow> u32" where
  "be_word bs = foldl (\<lambda>w b. w * 256 + b) 0 bs"

definition word_bytes :: "u32 \<Rightarrow> bytes" where
  "word_bytes w = [w div 16777216 mod 256, w div 65536 mod 256, w div 256 mod 256, w mod 256]"

fun chunks :: "nat \<Rightarrow> 'a list \<Rightarrow> 'a list list" where
  "chunks n [] = []"
| "chunks n (x # xs) = (if n = 0 then [] else take n (x # xs) # chunks n (drop n (x # xs)))"

definition len_bytes :: "nat \<Rightarrow> bytes" where
  "len_bytes n = word_bytes (n div 4294967296 mod 4294967296) @ word_bytes (n mod 4294967296)"

definition sha_pad :: "bytes \<Rightarrow> bytes" where
  "sha_pad m = m @ [0x80] @ replicate ((119 - length m mod 64) mod 64) 0 @ len_bytes (8 * length m)"

definition sha256 :: "bytes \<Rightarrow> bytes" where
  "sha256 m = concat (map word_bytes
       (foldl sha_compress sha256_H0 (map (map be_word \<circ> chunks 4) (chunks 64 (sha_pad m)))))"

subsection \<open>hmac.new(key, msg, hashlib.sha256).digest() (RFC 2104)\<close>

definition xor_bytes :: "bytes \<Rightarrow> bytes \<Rightarrow> bytes" where
  "xor_bytes xs ys = map2 (XOR) xs ys"

definition hmac_sha256 :: "bytes \<Rightarrow> bytes \<Rightarrow> bytes" where
  "hmac_sha256 key msg =
     (let k = (if length key > 64 then sha256 key else key);
          k0 = k @ replicate (64 - length k) 0
      in sha256 (map (\<lambda>b. b XOR 0x5c) k0 @ sha256 (map (\<lambda>b. b XOR 0x36) k0 @ msg)))"

subsection \<open>AES (FIPS 197) and the counter mode of Cryptodome\<close>

definition aes_sbox :: "byte list list" where
  "aes_sbox = [
  [0x63,0x7c,0x77,0x7b,0xf2,0x6b,0x6f,0xc5,0x30,0x01,0x67,0x2b,0xfe,0xd7,0xab,0x76],
  [0xca,0x82,0xc9,0x7d,0xfa,0x59,0x47,0xf0,0xad,0xd4,0xa2,0xaf,0x9c,0xa4,0x72,0xc0],
  [0xb7,0xfd,0x93,0x26,0x36,0x3f,0xf7,0xcc,0x34,0xa5,0xe5,0xf1,0x71,0xd8,0x31,0x15],
  [0x04,0xc7,0x23,0xc3,0x18,0x96,0x05,0x9a,0x07,0x12,0x80,0xe2,0xeb,0x27,0xb2,0x75],
  [0x09,0x83,0x2c,0x1a,0x1b,0x6e,0x5a,0xa0,0x52,0x3b,0xd6,0xb3,0x29,0xe3,0x2f,0x84],
  [0x53,0xd1,0x00,0xed,0x20,0xfc,0xb1,0x5b,0x6a,0xcb,0xbe,0x39,0x4a,0x4c,0x58,0xcf],
  [0xd0,0xef,0xaa,0xfb,0x43,0x4d,0x33,0x85,0x45,0xf9,0x02,0x7f,0x50,0x3c,0x9f,0xa8],
  [0x51,0xa3,0x40,0x8f,0x92,0x9d,0x38,0xf5,0xbc,0xb6,0xda,0x21,0x10,0xff,0xf3,0xd2],
  [0xcd,0x0c,0x13,0xec,0x5f,0x97,0x44,0x17,0xc4,0xa7,0x7e,0x3d,0x64,0x5d,0x19,0x73],
  [0x60,0x81,0x4f,0xdc,0x22,0x2a,0x90,0x88,0x46,0xee,0xb8,0x14,0xde,0x5e,0x0b,0xdb],
  [0xe0,0x32,0x3a,0x0a,0x49,0x06,0x24,0x5c,0xc2,0xd3,0xac,0x62,0x91,0x95,0xe4,0x79],
  [0xe7,0xc8,0x37,0x6d,0x8d,0xd5,0x4e,0xa9,0x6c,0x56,0xf4,0xea,0x65,0x7a,0xae,0x08],
  [0xba,0x78,0x25,0x2e,0x1c,0xa6,0xb4,0xc6,0xe8,0xdd,0x74,0x1f,0x4b,0xbd,0x8b,0x8a],
  [0x70,0x3e,0xb5,0x66,0x48,0x03,0xf6,0x0e,0x61,0x35,0x57,0xb9,0x86,0xc1,0x1d,0x9e],
  [0xe1,0xf8,0x98,0x11,0x69,0xd9,0x8e,0x94,0x9b,0x1e,0x87,0xe9,0xce,0x55,0x28,0xdf],
  [0x8c,0xa1,0x89,0x0d,0xbf,0xe6,0x42,0x68,0x41,0x99,0x2d,0x0f,0xb0,0x54,0xbb,0x16]]"

definition sub_byte :: "byte \<Rightarrow> byte" where
  "sub_byte b = aes_sbox ! (b div 16 mod 16) ! (b mod 16)"

definition xtime :: "byte \<Rightarrow> byte" where
  "xtime b = (if b mod 256 < 128 then 2 * (b mod 256) else (2 * (b mod 256) - 256) XOR 0x1b)"

definition sub_bytes :: "bytes \<Rightarrow> bytes" where
  "sub_bytes s = map sub_byte s"

definition shift_rows :: "bytes \<Rightarrow> bytes" where
  "shift_rows s = map (\<lambda>i. s ! i) [0, 5, 10, 15, 4, 9, 14, 3, 8, 13, 2, 7, 12, 1, 6, 11]"

fun mix_column :: "bytes \<Rightarrow> bytes" where
  "mix_column [a0, a1, a2, a3] =
     [xtime a0 XOR (xtime a1 XOR a1) XOR a2 XOR a3,
      a0 XOR xtime a1 XOR (xtime a2 XOR a2) XOR a3,
      a0 XOR a1 XOR xtime a2 XOR (xtime a3 XOR a3),
      (xtime a0 XOR a0) XOR a1 XOR a2 XOR xtime a3]"
| "mix_column c = c"

definition mix_columns :: "bytes \<Rightarrow> bytes" where
  "mix_columns s = concat (map mix_column (chunks 4 s))"

definition aes_rcon :: "byte list" where
  "aes_rcon = [0x01, 0x02, 0x04, 0x08, 0x10, 0x20, 0x40, 0x80, 0x1b, 0x36]"

definition rot_word :: "bytes \<Rightarrow> bytes" where
  "rot_word w = tl w @ [hd w]"

definition key_word :: "nat \<Rightarrow> nat \<Rightarrow> bytes list \<Rightarrow> bytes" where
  "key_word nk i w =
     (let temp = w ! (i - 1);
          temp' = (if i mod nk = 0
                   then xor_bytes (sub_bytes (rot_word temp)) [aes_rcon ! (i div nk - 1), 0, 0, 0]
                   else if nk > 6 \<and> i mod nk = 4 then sub_bytes temp
                   else temp)
      in xor_bytes (w ! (i - nk)) temp')"

fun expand_words :: "nat \<Rightarrow> nat \<Rightarrow> bytes list \<Rightarrow> bytes list" where
  "expand_words nk 0 w = w"
| "expand_words nk (Suc n) w = expand_words nk n (w @ [key_word nk (length w) w])"

definition key_expansion :: "bytes \<Rightarrow> bytes list" where
  "key_expansion key =
     (let nk = length key div 4
      in map concat (chunks 4 (expand_words nk (4 * (nk + 7) - nk) (chunks 4 key))))"

definition aes_round :: "bytes \<Rightarrow> bytes \<Rightarrow> bytes" where
  "aes_round s rk = xor_bytes (mix_columns (shift_rows (sub_bytes s))) rk"

definition aes_final_round :: "bytes \<Rightarrow> bytes \<Rightarrow> bytes" where
  "aes_final_round s rk = xor_bytes (shift_rows (sub_bytes s)) rk"

definition aes_encrypt_block :: "bytes list \<Rightarrow> bytes \<Rightarrow> bytes" where
  "aes_encrypt_block rks blk =
     aes_final_round (foldl aes_round (xor_bytes blk (hd rks)) (butlast (tl rks))) (last rks)"

text \<open>
  \<open>Counter.new(128, initial_value=0)\<close> is a 128-bit big-endian counter; \<open>AES.new(key,
  AES.MODE_CTR, counter=counter).encrypt(msg)\<close> XORs the message with the encryptions
  of the successive counter blocks. The library accepts keys of 16, 24 and 32 bytes; the
  only key the code passes is an HMAC-SHA256 digest, which has 32 bytes.
\<close>

definition counter_block :: "nat \<Rightarrow> bytes" where
  "counter_block n = map (\<lambda>i. n div 256 ^ i mod 256) (rev [0..<16])"

definition aes_ctr_encrypt :: "bytes \<Rightarrow> nat \<Rightarrow> bytes \<Rightarrow> bytes" where
  "aes_ctr_encrypt key iv msg =
     (let rks = key_expansion key
      in xor_bytes msg
           (concat (map (\<lambda>i. aes_encrypt_block rks (counter_block ((iv + i) mod 2 ^ 128)))
                        [0..<(length msg + 15) div 16])))"

subsection \<open>The operating system's random generator\<close>

text \<open>
  The random bytes of the operating system are an argument of every operation that
  draws from them: an infinite sequence of bytes, of which \<open>os.urandom(n)\<close> takes the
  first \<open>n\<close>. \<open>secrets.token_bytes(n)\<close> is \<open>urandom(n)\<close>, and
  \<open>SystemRandom().random()\<close> is \<open>(int.from_bytes(urandom(7), 'big') >> 3) * 2^-53\<close>.
\<close>

type_synonym csprng = "nat \<Rightarrow> nat"

definition urandom :: "nat \<Rightarrow> csprng \<Rightarrow> bytes \<times> csprng" where
  "urandom n g = (map (\<lambda>i. g i mod 256) [0..<n], (\<lambda>i. g (i + n)))"

definition token_bytes :: "nat \<Rightarrow> csprng \<Rightarrow> bytes \<times> csprng" where
  "token_bytes n g = urandom n g"

definition from_bytes_big :: "bytes \<Rightarrow> nat" where
  "from_bytes_big bs = foldl (\<lambda>w b. w * 256 + b) 0 bs"

text \<open>The 53-bit number \<open>r\<close> of \<open>random()\<close>.\<close>

definition random53 :: "csprng \<Rightarrow> nat \<times> csprng" where
  "random53 g = (case urandom 7 g of (bs, g') \<Rightarrow> (from_bytes_big bs div 8, g'))"

text \<open>
  \<open>random.shuffle(x, random)\<close>: for \<open>i\<close> from \<open>len(x) - 1\<close> down to 1, swap
  \<open>x[i]\<close> with \<open>x[j]\<close> where \<open>j = int(random() * (i + 1))\<close>. The double
  \<open>random()\<close> is \<open>r * 2^-53\<close> for the 53-bit number \<open>r\<close>, and its product with
  \<open>i + 1\<close> is the double nearest to \<open>r * (i + 1) / 2^53\<close>.
\<close>

fun shuffle_loop :: "nat \<Rightarrow> 'a list \<Rightarrow> csprng \<Rightarrow> 'a list \<times> csprng" where
  "shuffle_loop 0 xs g = (xs, g)"
| "shuffle_loop (Suc i) xs g =
     (case random53 g of (r, g') \<Rightarrow>
        (let j = nat (float_int (true_div (int (r * (Suc i + 1))) (2 ^ 53)))
         in shuffle_loop i (xs[Suc i := xs ! j, j := xs ! Suc i]) g'))"

section \<open>Low-cost design (dp3t/protocols/lowcost.py)\<close>

definition BROADCAST_KEY :: bytes where
  "BROADCAST_KEY = map of_char ''broadcast key''"

definition secure_shuffle :: "'a list \<Rightarrow> csprng \<Rightarrow> 'a list \<times> csprng" where
  "secure_shuffle items g = shuffle_loop (length items - 1) items g"

definition generate_new_day_key :: "csprng \<Rightarrow> bytes \<times> csprng" where
  "generate_new_day_key g = token_bytes 32 g"

definition next_day_key :: "bytes \<Rightarrow> bytes" where
  "next_day_key current_day_key = sha256 current_day_key"

text \<open>\<open>range(0, n, step)\<close> of Python, for a positive step.\<close>

definition range_step :: "nat \<Rightarrow> nat \<Rightarrow> nat list" where
  "range_step n step = map (\<lambda>k. k * step) [0..<(n + step - 1) div step]"

definition prg_output_bytes :: "bytes \<Rightarrow> bytes" where
  "prg_output_bytes current_day_key =
     aes_ctr_encrypt (hmac_sha256 current_day_key BROADCAST_KEY) 0
       (replicate (LENGTH_EPHID * NUM_EPOCHS_PER_DAY) 0)"

definition generate_ephids_for_day :: "bytes \<Rightarrow> bool \<Rightarrow> csprng \<Rightarrow> bytes list \<times> csprng" where
  "generate_ephids_for_day current_day_key shuffle g =
     (let out = prg_output_bytes current_day_key;
          ephids = map (\<lambda>idx. take LENGTH_EPHID (drop idx out)) (range_step (length out) LENGTH_EPHID)
      in if shuffle then secure_shuffle ephids g else (ephids, g))"

subsection \<open>TracingDataBatch\<close>

record lc_batch =
  release_time :: int
  time_key_pairs :: "(int \<times> bytes) list"

text \<open>
  \<open>TracingDataBatch.__init__\<close>: the optional release time defaults to the batch start
  of the current time \<open>now\<close>, which the model takes as an argument.
\<close>

definition lc_batch_init :: "datetime \<Rightarrow> (int \<times> bytes) list \<Rightarrow> int option \<Rightarrow> error + lc_batch" where
  "lc_batch_init now pairs rt =
     (let r = (case rt of None \<Rightarrow> batch_start_from_time now | Some r \<Rightarrow> r)
      in if r mod SECONDS_PER_BATCH \<noteq> 0
         then Inl (ValueError ''Release time must be batch-aligned'')
         else Inr \<lparr>release_time = r, time_key_pairs = pairs\<rparr>)"

subsection \<open>ContactTracer\<close>

text \<open>
  A Python dictionary is an association list in insertion order: \<open>map_of d k\<close> looks a
  key up, \<open>AList.update k v d\<close> is \<open>d[k] = v\<close> (in place for a key that is present, at
  the end for a new one) and \<open>AList.delete k d\<close> is \<open>del d[k]\<close> for a key that is
  present. The keys of a dictionary are distinct.

  \<open>xs[i]\<close> on a Python list counts a negative index from the end and raises
  \<open>IndexError\<close> out of range.
\<close>

definition py_getitem :: "'a list \<Rightarrow> int \<Rightarrow> error + 'a" where
  "py_getitem xs i =
     (if 0 \<le> i \<and> i < int (length xs) then Inr (xs ! nat i)
      else if i < 0 \<and> - int (length xs) \<le> i then Inr (xs ! nat (int (length xs) + i))
      else Inl IndexError)"

record lc_tracer =
  past_keys :: "bytes list"
  observations :: "(int \<times> bytes list) list"
  start_of_today :: int
  current_day_key :: bytes
  current_ephids :: "bytes list"

text \<open>\<open>_reconstruct_ephids\<close>: the \<open>while day <= end_time\<close> loop.\<close>

function reconstruct_loop ::
  "bytes \<Rightarrow> int \<Rightarrow> int \<Rightarrow> (int \<times> bytes list) list \<Rightarrow> csprng \<Rightarrow> (int \<times> bytes list) list \<times> csprng" where
  "reconstruct_loop key day end_time ephids_per_day g =
     (if day \<le> end_time
      then (case generate_ephids_for_day key True g of (ephids, g') \<Rightarrow>
              reconstruct_loop (next_day_key key) (day + SECONDS_PER_DAY) end_time
                (AList.update day ephids ephids_per_day) g')
      else (ephids_per_day, g))"
  by pat_completeness auto
termination
  by (relation "measure (\<lambda>(key, day, end_time, d, g). nat (end_time - day + 1))")
     (auto simp: SECONDS_PER_DAY_def)

declare reconstruct_loop.simps [simp del]

definition reconstruct_ephids ::
  "bytes \<Rightarrow> int \<Rightarrow> int \<Rightarrow> csprng \<Rightarrow> (int \<times> bytes list) list \<times> csprng" where
  "reconstruct_ephids key start_time end_time g = reconstruct_loop key start_time end_time [] g"

text \<open>\<open>__init__\<close>; the default start time is the current time, passed by the caller.\<close>

definition lc_init :: "datetime \<Rightarrow> csprng \<Rightarrow> lc_tracer" where
  "lc_init start_time g =
     (case generate_new_day_key g of (k, g1) \<Rightarrow>
        \<lparr>past_keys = [], observations = [],
         start_of_today = day_start_from_time start_time,
         current_day_key = k,
         current_ephids = fst (generate_ephids_for_day k True g1)\<rparr>)"

definition lc_next_day :: "csprng \<Rightarrow> lc_tracer \<Rightarrow> lc_tracer" where
  "lc_next_day g st =
     (let keys = take RETENTION_PERIOD (current_day_key st # past_keys st);
          key = next_day_key (current_day_key st);
          ephids = fst (generate_ephids_for_day key True g);
          today = start_of_today st + SECONDS_PER_DAY;
          last_retained = today - int RETENTION_PERIOD * SECONDS_PER_DAY;
          delete_times = filter (\<lambda>time. time < last_retained) (map fst (observations st))
      in \<lparr>past_keys = keys,
          observations = fold AList.delete delete_times (observations st),
          start_of_today = today,
          current_day_key = key,
          current_ephids = ephids\<rparr>)"


text \<open>
  The operations that can raise after the tracer exists return the tracer as the call
  leaves it together with the result or the exception.
\<close>

definition lc_add_observation ::
  "bytes \<Rightarrow> datetime \<Rightarrow> csprng \<Rightarrow> lc_tracer \<Rightarrow> (error + unit) \<times> lc_tracer" where
  "lc_add_observation ephid time g st =
     (let batch_start = batch_start_from_time time;
          end_of_today = start_of_today st + SECONDS_PER_DAY
      in if \<not> (start_of_today st \<le> batch_start \<and> batch_start < end_of_today)
         then (Inl (ValueError ''Observation must correspond to current day''), st)
         else (let bucket = (case map_of (observations st) batch_start of
                               None \<Rightarrow> [] | Some l \<Rightarrow> l)
               in (Inr (),
                   st\<lparr>observations :=
                        AList.update batch_start (fst (secure_shuffle (bucket @ [ephid]) g))
                          (observations st)\<rparr>)))"

definition lc_get_tracing_information ::
  "datetime \<Rightarrow> datetime option \<Rightarrow> bool \<Rightarrow> csprng \<Rightarrow> lc_tracer \<Rightarrow> (error + int \<times> bytes) \<times> lc_tracer" where
  "lc_get_tracing_information first_contagious_time last_contagious_time reset_key_after_release g st =
     (let start_contagious_day = day_start_from_time first_contagious_time;
          nr_days_back = (start_of_today st - start_contagious_day) div SECONDS_PER_DAY
      in if nr_days_back > int (length (past_keys st)) \<or> nr_days_back < 0
         then (Inl (ValueError ''The requested tracing key is not available''), st)
         else (case (if nr_days_back = 0 then Inr (current_day_key st)
                     else py_getitem (past_keys st) (nr_days_back - 1)) of
                 Inl e \<Rightarrow> (Inl e, st)
               | Inr tracing_key \<Rightarrow>
                   (Inr (start_contagious_day, tracing_key),
                    if reset_key_after_release
                    then (case generate_new_day_key g of (k, g1) \<Rightarrow>
                            st\<lparr>current_day_key := k,
                               current_ephids := fst (generate_ephids_for_day k True g1),
                               past_keys := []\<rparr>)
                    else st)))"

definition count_ephids :: "bytes list \<Rightarrow> bytes list \<Rightarrow> nat \<Rightarrow> nat" where
  "count_ephids ephids bucket nr =
     fold (\<lambda>ephid n. if ephid \<in> set bucket then n + 1 else n) ephids nr"

definition matches_with_key ::
  "bytes \<Rightarrow> int \<Rightarrow> int \<Rightarrow> csprng \<Rightarrow> lc_tracer \<Rightarrow> nat \<times> csprng" where
  "matches_with_key key start_time rel g st =
     (case reconstruct_ephids key start_time rel g of (ephids_per_day, g') \<Rightarrow>
        (fold (\<lambda>(time, bucket) nr_encounters.
                 if time \<ge> rel then nr_encounters
                 else (case map_of ephids_per_day ((time div SECONDS_PER_DAY) * SECONDS_PER_DAY) of
                         None \<Rightarrow> nr_encounters
                       | Some ephids \<Rightarrow> count_ephids ephids bucket nr_encounters))
              (observations st) 0, g'))"

fun matches_loop :: "(int \<times> bytes) list \<Rightarrow> int \<Rightarrow> nat \<Rightarrow> csprng \<Rightarrow> lc_tracer \<Rightarrow> nat \<times> csprng" where
  "matches_loop [] rel seen g st = (seen, g)"
| "matches_loop ((start_time, key) # pairs) rel seen g st =
     (case matches_with_key key start_time rel g st of (n, g') \<Rightarrow>
        matches_loop pairs rel (seen + n) g' st)"

definition lc_matches_with_batch :: "lc_batch \<Rightarrow> csprng \<Rightarrow> lc_tracer \<Rightarrow> nat" where
  "lc_matches_with_batch batch g st =
     fst (matches_loop (time_key_pairs batch) (release_time batch) 0 g st)"

fun reinsert ::
  "(int \<times> bytes list) list \<Rightarrow> (int \<times> bytes list) list \<Rightarrow> csprng \<Rightarrow> (int \<times> bytes list) list \<times> csprng" where
  "reinsert [] obs g = (obs, g)"
| "reinsert ((time, moved) # update_list) obs g =
     (let day_time = (time div SECONDS_PER_DAY) * SECONDS_PER_DAY;
          bucket = (case map_of obs day_time of None \<Rightarrow> [] | Some l \<Rightarrow> l)
      in case secure_shuffle (bucket @ moved) g of (shuffled, g') \<Rightarrow>
           reinsert update_list (AList.update day_time shuffled obs) g')"

definition housekeeping_after_batch :: "lc_batch \<Rightarrow> csprng \<Rightarrow> lc_tracer \<Rightarrow> lc_tracer" where
  "housekeeping_after_batch batch g st =
     (let update_list = filter (\<lambda>(time, bucket). time < release_time batch \<and> time mod SECONDS_PER_DAY \<noteq> 0)
                          (observations st);
          kept = fold AList.delete (map fst update_list) (observations st)
      in st\<lparr>observations := fst (reinsert update_list kept g)\<rparr>)"

text \<open>A caller's sequence of calls; a call that raises leaves the tracer as the call left it.\<close>

datatype lc_op =
    NextDay csprng
  | GetEphidForTime datetime
  | AddObservation bytes datetime csprng
  | GetTracingInformation datetime "datetime option" bool csprng
  | MatchesWithBatch lc_batch csprng
  | HousekeepingAfterBatch lc_batch csprng

fun lc_step :: "lc_op \<Rightarrow> lc_tracer \<Rightarrow> lc_tracer" where
  "lc_step (NextDay g) st = lc_next_day g st"
| "lc_step (GetEphidForTime t) st = st"
| "lc_step (AddObservation ephid t g) st = snd (lc_add_observation ephid t g st)"
| "lc_step (GetTracingInformation t l r g) st = snd (lc_get_tracing_information t l r g st)"
| "lc_step (MatchesWithBatch b g) st = st"
| "lc_step (HousekeepingAfterBatch b g) st = housekeeping_after_batch b g st"

definition lc_run :: "lc_op list \<Rightarrow> lc_tracer \<Rightarrow> lc_tracer" where
  "lc_run ops st = fold lc_step ops st"

section \<open>Unlinkable design (dp3t/protocols/unlinkable.py)\<close>

text \<open>
  \<open>int(time.timestamp() // (EPOCH_LENGTH * 60))\<close>: the floor of the double divided by
  the epoch length.
\<close>

definition epoch_from_time :: "datetime \<Rightarrow> int" where
  "epoch_from_time time = float_floordiv (timestamp time) (EPOCH_LENGTH * 60)"

text \<open>
  \<open>time.date()\<close> is the number of the day (of a UTC datetime), \<open>timedelta(days=n)\<close>
  is \<open>n\<close> days of microseconds on a datetime and \<open>n\<close> on a date.
\<close>

definition date_of :: "datetime \<Rightarrow> int" where
  "date_of time = time div 86400000000"


definition generate_new_seed :: "csprng \<Rightarrow> bytes \<times> csprng" where
  "generate_new_seed g = token_bytes 32 g"

definition ephid_from_seed :: "bytes \<Rightarrow> bytes" where
  "ephid_from_seed seed = take LENGTH_EPHID (sha256 seed)"

text \<open>\<open>epoch.to_bytes(4, "big")\<close> raises \<open>OverflowError\<close> outside \<open>0 .. 2^32 - 1\<close>.\<close>

definition to_bytes4 :: "int \<Rightarrow> error + bytes" where
  "to_bytes4 n = (if 0 \<le> n \<and> n < 4294967296 then Inr (word_bytes (nat n)) else Inl OverflowError)"

definition hashed_observation_from_ephid :: "bytes \<Rightarrow> int \<Rightarrow> error + bytes" where
  "hashed_observation_from_ephid ephid epoch =
     (case to_bytes4 epoch of Inl e \<Rightarrow> Inl e | Inr epoch_bytes \<Rightarrow> Inr (sha256 (ephid @ epoch_bytes)))"

definition hashed_observation_from_seed :: "bytes \<Rightarrow> int \<Rightarrow> error + bytes" where
  "hashed_observation_from_seed seed epoch = hashed_observation_from_ephid (ephid_from_seed seed) epoch"

record unl_tracer =
  seeds_per_epoch :: "(int \<times> bytes) list"
  ephids_per_epoch :: "(int \<times> bytes) list"
  observations_per_day :: "(int \<times> bytes list) list"
  unl_start_of_today :: datetime

definition today :: "unl_tracer \<Rightarrow> int" where
  "today st = date_of (unl_start_of_today st)"

text \<open>\<open>[generate_new_seed() for _ in range(n)]\<close>.\<close>

fun new_seeds :: "nat \<Rightarrow> csprng \<Rightarrow> bytes list \<times> csprng" where
  "new_seeds 0 g = ([], g)"
| "new_seeds (Suc n) g =
     (case generate_new_seed g of (seed, g') \<Rightarrow>
        (case new_seeds n g' of (seeds, g'') \<Rightarrow> (seed # seeds, g'')))"

definition create_new_day_ephids :: "csprng \<Rightarrow> unl_tracer \<Rightarrow> unl_tracer" where
  "create_new_day_ephids g st =
     (let seeds = fst (new_seeds NUM_EPOCHS_PER_DAY g);
          ephids = map ephid_from_seed seeds;
          first_epoch = epoch_from_time (unl_start_of_today st)
      in fold (\<lambda>relative_epoch s.
                 s\<lparr>seeds_per_epoch :=
                      AList.update (first_epoch + int relative_epoch) (seeds ! relative_epoch)
                        (seeds_per_epoch s),
                    ephids_per_epoch :=
                      AList.update (first_epoch + int relative_epoch) (ephids ! relative_epoch)
                        (ephids_per_epoch s)\<rparr>)
              [0..<NUM_EPOCHS_PER_DAY] st)"

text \<open>
  \<open>__init__\<close>; the default start time is the start of the current day, passed by the
  caller.
\<close>

definition unl_init :: "datetime \<Rightarrow> csprng \<Rightarrow> unl_tracer" where
  "unl_init start_time g =
     create_new_day_ephids g
       \<lparr>seeds_per_epoch = [], ephids_per_epoch = [], observations_per_day = [],
        unl_start_of_today = start_time\<rparr>"




definition unl_add_observation ::
  "bytes \<Rightarrow> datetime \<Rightarrow> unl_tracer \<Rightarrow> (error + unit) \<times> unl_tracer" where
  "unl_add_observation ephid time st =
     (let st1 = (if map_of (observations_per_day st) (today st) = None
                 then st\<lparr>observations_per_day := AList.update (today st) [] (observations_per_day st)\<rparr>
                 else st)
      in if \<not> (date_of time = today st1)
         then (Inl (ValueError ''Observation must correspond to current day''), st1)
         else (case hashed_observation_from_ephid ephid (epoch_from_time time) of
                 Inl e \<Rightarrow> (Inl e, st1)
               | Inr hashed_observation \<Rightarrow>
                   (Inr (),
                    st1\<lparr>observations_per_day :=
                          AList.update (today st1)
                            ((case map_of (observations_per_day st1) (today st1) of
                                None \<Rightarrow> [] | Some l \<Rightarrow> l) @ [hashed_observation])
                            (observations_per_day st1)\<rparr>)))"

fun tracing_seeds :: "int list \<Rightarrow> (int \<times> bytes) list \<Rightarrow> error + bytes list" where
  "tracing_seeds [] seeds = Inr []"
| "tracing_seeds (epoch # reported_epochs) seeds =
     (case map_of seeds epoch of
        None \<Rightarrow> Inl (ValueError ''A requested epoch is not available'')
      | Some seed \<Rightarrow>
          (case tracing_seeds reported_epochs seeds of
             Inl e \<Rightarrow> Inl e
           | Inr rest \<Rightarrow> Inr (seed # rest)))"

definition get_tracing_seeds_for_epochs :: "int list \<Rightarrow> unl_tracer \<Rightarrow> error + bytes list" where
  "get_tracing_seeds_for_epochs reported_epochs st = tracing_seeds reported_epochs (seeds_per_epoch st)"

definition unl_get_tracing_information ::
  "datetime \<Rightarrow> datetime option \<Rightarrow> unl_tracer \<Rightarrow> error + int list \<times> bytes list" where
  "unl_get_tracing_information first_contagious_time last_contagious_time st =
     (let last = (case last_contagious_time of None \<Rightarrow> unl_start_of_today st | Some t \<Rightarrow> t)
      in if last < first_contagious_time
         then Inl (ValueError ''Last_contagious_time should be after first_contagious_time'')
         else (let reported_epochs = [epoch_from_time first_contagious_time .. epoch_from_time last]
               in case get_tracing_seeds_for_epochs reported_epochs st of
                    Inl e \<Rightarrow> Inl e
                  | Inr seeds \<Rightarrow> Inr (reported_epochs, seeds)))"

text \<open>
  The batch of the unlinkable design and \<open>matches_with_batch\<close> go through the cuckoo
  filter of an external library and are not part of this development.
\<close>

datatype unl_op =
    UNextDay csprng
  | UGetEphidForTime datetime
  | UAddObservation bytes datetime
  | UGetTracingInformation datetime "datetime option"



text \<open>The start of the day of a receive time, as the code computes it.\<close>

definition day_time :: "int \<Rightarrow> int" where
  "day_time time = (time div SECONDS_PER_DAY) * SECONDS_PER_DAY"

text \<open>All the EphIDs of an observation store, with their multiplicities.\<close>

definition stored_ephids :: "(int \<times> bytes list) list \<Rightarrow> bytes multiset" where
  "stored_ephids obs = mset (concat (map snd obs))"

text \<open>Telling the calls of \<open>next_day\<close> in a sequence of calls.\<close>

fun lc_is_next_day :: "lc_op \<Rightarrow> bool" where
  "lc_is_next_day (NextDay g) = True"
| "lc_is_next_day op = False"

fun unl_is_next_day :: "unl_op \<Rightarrow> bool" where
  "unl_is_next_day (UNextDay g) = True"
| "unl_is_next_day op = False"

section \<open>Invariants\<close>

text \<open>
  The key chain of the low-cost tracer, following the list: the current key is the hash
  of the newest past key, and every past key is the hash of the next older one.
\<close>

fun chained :: "bytes \<Rightarrow> bytes list \<Rightarrow> bool" where
  "chained k [] = True"
| "chained k (p # ps) = (k = next_day_key p \<and> chained p ps)"


text \<open>Every stored day of observations is the current day or an earlier one.\<close>

definition unl_obs_bound :: "unl_tracer \<Rightarrow> bool" where
  "unl_obs_bound st \<longleftrightarrow> (\<forall>d \<in> fst ` set (observations_per_day st). d \<le> today st)"


section \<open>Example inputs\<close>

text \<open>A random generator that returns zero bytes, and tracers built with it.\<close>

definition zero_entropy :: csprng where
  "zero_entropy = (\<lambda>i. 0)"

definition lc_example :: lc_tracer where
  "lc_example = lc_run [NextDay zero_entropy, NextDay zero_entropy] (lc_init 0 zero_entropy)"


text \<open>
  A low-cost tracer that has recorded one EphID at 02:13:20 of its first day, and a
  batch released at 04:00:00 of that day.
\<close>

definition lc_observed :: lc_tracer where
  "lc_observed = lc_run [AddObservation (replicate 16 0) 8000000000 zero_entropy] (lc_init 0 zero_entropy)"

definition batch_example :: lc_batch where
  "batch_example = \<lparr>release_time = 14400, time_key_pairs = []\<rparr>"

section \<open>Properties of the library primitives\<close>

subsection \<open>Doubles\<close>

lemma ilog2_bounds: "0 < n \<Longrightarrow> 2 ^ ilog2 n \<le> n \<and> n < 2 ^ Suc (ilog2 n)"
proof (induction n rule: ilog2.induct)
  case (1 n)
  show ?case
  proof (cases "n < 2")
    case True
    with "1.prems" have "n = 1" by simp
    then show ?thesis by (simp add: ilog2.simps)
  next
    case False
    then have pos: "0 < n div 2" by simp
    have eq: "ilog2 n = Suc (ilog2 (n div 2))"
      using False by (subst ilog2.simps) simp
    define x where "x = (2::nat) ^ ilog2 (n div 2)"
    have "x \<le> n div 2" and "n div 2 < 2 * x"
      using "1.IH" [OF False pos] by (simp_all add: x_def)
    then have "2 * x \<le> n" and "n < 2 * (2 * x)" by linarith+
    then show ?thesis by (simp add: eq x_def)
  qed
qed

lemma round_half_even_bounds:
  assumes "0 < q"
  shows "2 * (round_half_even p q * q) \<le> 2 * p + q"
    and "2 * p \<le> 2 * (round_half_even p q * q) + q"
proof -
  define f where "f = p div q"
  define r where "r = p mod q"
  define a where "a = f * q"
  have p: "p = a + r" by (simp add: f_def r_def a_def)
  have r: "r < q" using assms by (simp add: r_def)
  have s: "(f + 1) * q = a + q" by (simp add: a_def algebra_simps)
  have cases: "round_half_even p q = f \<and> 2 * r \<le> q \<or> round_half_even p q = f + 1 \<and> q \<le> 2 * r"
    by (auto simp: round_half_even_def f_def r_def)
  then show "2 * (round_half_even p q * q) \<le> 2 * p + q"
  proof
    assume "round_half_even p q = f \<and> 2 * r \<le> q"
    then show ?thesis using p by (simp add: a_def [symmetric])
  next
    assume "round_half_even p q = f + 1 \<and> q \<le> 2 * r"
    then show ?thesis using p s by simp
  qed
  from cases show "2 * p \<le> 2 * (round_half_even p q * q) + q"
  proof
    assume "round_half_even p q = f \<and> 2 * r \<le> q"
    then show ?thesis using p by (simp add: a_def [symmetric])
  next
    assume "round_half_even p q = f + 1 \<and> q \<le> 2 * r"
    then show ?thesis using p s r by simp
  qed
qed


lemma double_exponent_ge:
  assumes "0 < d" "d \<le> n"
  shows "double_exponent n d = int (ilog2 (n div d))"
    and "2 ^ ilog2 (n div d) * d \<le> n"
proof -
  show "double_exponent n d = int (ilog2 (n div d))"
    using assms by (simp add: double_exponent_def)
  have "0 < n div d" using assms by (simp add: div_greater_zero_iff)
  then have "2 ^ ilog2 (n div d) \<le> n div d" using ilog2_bounds by blast
  then have "2 ^ ilog2 (n div d) * d \<le> (n div d) * d" by (rule mult_le_mono1)
  also have "\<dots> \<le> n" by simp
  finally show "2 ^ ilog2 (n div d) * d \<le> n" .
qed

lemma double_exponent_lt:
  assumes "n < d"
  shows "double_exponent n d \<le> - 1"
  using assms by (simp add: double_exponent_def)

text \<open>The mantissa is within a half of the scaled quotient.\<close>

lemma true_div_nat_mantissa:
  assumes "0 < n" "0 < d" "double_exponent n d \<le> 52"
  obtains m s where "true_div_nat n d = (m, 2 ^ s)"
    and "int s = 52 - double_exponent n d"
    and "2 * (m * d) \<le> 2 * (n * 2 ^ s) + d"
    and "2 * (n * 2 ^ s) \<le> 2 * (m * d) + d"
proof -
  define s where "s = nat (52 - double_exponent n d)"
  define m where "m = round_half_even (n * 2 ^ s) d"
  have "true_div_nat n d = (m, 2 ^ s)"
    using assms by (simp add: true_div_nat_def m_def s_def)
  moreover have "int s = 52 - double_exponent n d" using assms(3) by (simp add: s_def)
  moreover have "2 * (m * d) \<le> 2 * (n * 2 ^ s) + d" "2 * (n * 2 ^ s) \<le> 2 * (m * d) + d"
    unfolding m_def using round_half_even_bounds [OF assms(2)] by blast+
  ultimately show thesis using that by blast
qed




text \<open>
  Before \<open>2^34\<close> seconds (in the year 2514) the double of a time never reaches the
  next whole second.
\<close>

lemma true_div_nat_early:
  assumes "n < 2 ^ 34 * 1000000"
  obtains m D where "true_div_nat n 1000000 = (m, D)" "0 < D"
    "(n div 1000000) * D \<le> m" "m < (n div 1000000 + 1) * D"
proof (cases "n = 0")
  case True
  have "true_div_nat n 1000000 = (0, 1)" using True by (simp add: true_div_nat_def)
  then show thesis using True by (intro that [of 0 1]) simp_all
next
  case False
  define d :: nat where "d = 1000000"
  define q where "q = n div d"
  define r where "r = n mod d"
  have dpos: "0 < d" by (simp add: d_def)
  have n: "n = q * d + r" and r: "r + 1 \<le> d" by (simp_all add: q_def r_def d_def)
  have e33: "double_exponent n d \<le> 33"
  proof (cases "d \<le> n")
    case True
    have "2 ^ ilog2 (n div d) * d \<le> n" using double_exponent_ge(2) [OF dpos True] .
    also have "n < 2 ^ 34 * d" using assms by (simp add: d_def)
    finally have "(2::nat) ^ ilog2 (n div d) < 2 ^ 34" using dpos by simp
    then have "ilog2 (n div d) < 34" by (simp only: power_strict_increasing_iff rel_simps)
    then show ?thesis using double_exponent_ge(1) [OF dpos True] by simp
  next
    case False
    then show ?thesis using double_exponent_lt [of n d] by simp
  qed
  have npos: "0 < n" using False by simp
  have e52: "double_exponent n d \<le> 52" using e33 by simp
  obtain m s where
    td: "true_div_nat n d = (m, 2 ^ s)"
    and s: "int s = 52 - double_exponent n d"
    and up: "2 * (m * d) \<le> 2 * (n * 2 ^ s) + d"
    and lo: "2 * (n * 2 ^ s) \<le> 2 * (m * d) + d"
    by (rule true_div_nat_mantissa [OF npos dpos e52])
  define D :: nat where "D = 2 ^ s"
  have "19 \<le> s" using s e33 by linarith
  then have "(2::nat) ^ 19 \<le> 2 ^ s" by (simp only: power_increasing_iff rel_simps)
  then have D: "d < 2 * D" by (simp add: D_def d_def)
  have Dpos: "0 < D" by (simp add: D_def)
  have nD: "n * D = q * D * d + r * D" by (simp add: n algebra_simps)
  have "(r + 1) * D \<le> d * D" using r by (rule mult_le_mono1)
  then have rD: "r * D + D \<le> d * D" by (simp add: algebra_simps)
  have lower: "q * D \<le> m"
  proof (rule ccontr)
    assume "\<not> q * D \<le> m"
    then have "m + 1 \<le> q * D" by simp
    then have "(m + 1) * d \<le> q * D * d" by (rule mult_le_mono1)
    then have "m * d + d \<le> q * D * d" by (simp add: algebra_simps)
    moreover have "2 * (q * D * d) \<le> 2 * (m * d) + d"
      using lo nD by (simp add: D_def [symmetric])
    ultimately show False using dpos by linarith
  qed
  have upper: "m < (q + 1) * D"
  proof (rule ccontr)
    assume "\<not> m < (q + 1) * D"
    then have "(q + 1) * D \<le> m" by simp
    then have "(q + 1) * D * d \<le> m * d" by (rule mult_le_mono1)
    then have "q * D * d + d * D \<le> m * d" by (simp add: algebra_simps)
    moreover have "2 * (m * d) \<le> 2 * (q * D * d) + 2 * (r * D) + d"
      using up nD by (simp add: D_def [symmetric])
    ultimately show False using rD D by linarith
  qed
  show thesis
    using that [of m D] td Dpos lower upper by (simp add: D_def q_def d_def)
qed

lemma timestamp_early:
  assumes "0 \<le> t" "t < 17179869184000000"
  shows "timestamp_int t = t div 1000000"
    and "epoch_from_time t = t div 900000000"
proof -
  have "nat t < 2 ^ 34 * 1000000" using assms by simp
  from true_div_nat_early [OF this] obtain m D where
    td: "true_div_nat (nat t) 1000000 = (m, D)" and D: "0 < D"
    and lo: "(nat t div 1000000) * D \<le> m" and up: "m < (nat t div 1000000 + 1) * D" .
  have "D * (nat t div 1000000) \<le> m" and "m < D * Suc (nat t div 1000000)"
    using lo up by (simp_all add: mult.commute)
  then have q: "m div D = nat t div 1000000" by (rule div_nat_eqI)
  have ts: "timestamp t = (int m, D)"
    using assms(1) td by (simp add: timestamp_def true_div_def)
  have "int (m div D) = int (nat t div 1000000)" using q by simp
  then have i: "int m div int D = t div 1000000"
    using assms(1) by (simp add: zdiv_int)
  show "timestamp_int t = t div 1000000"
    by (simp add: timestamp_int_def ts float_int_def i)
  have "int m div (int D * 900) = int m div int D div 900"
    by (rule zdiv_zmult2_eq) simp
  also have "\<dots> = t div (1000000 * 900)"
    unfolding i by (rule zdiv_zmult2_eq [symmetric]) simp
  finally show "epoch_from_time t = t div 900000000"
    by (simp add: epoch_from_time_def ts float_floordiv_def EPOCH_LENGTH_def)
qed


lemma exact_time_0 [simp]: "exact_time 0"
  by (simp add: exact_time_def)

lemma shuffle_index:
  assumes "r < 2 ^ 53"
  shows "nat (float_int (true_div (int (r * (i + 2))) (2 ^ 53))) \<le> i + 1"
proof -
  define N where "N = i + 2"
  define d :: nat where "d = 2 ^ 53"
  define n where "n = r * N"
  have dpos: "0 < d" by (simp add: d_def)
  have rd: "r + 1 \<le> d" using assms by (simp add: d_def)
  have "(r + 1) * N \<le> d * N" using rd by (rule mult_le_mono1)
  then have nN: "n + N \<le> d * N" by (simp add: n_def algebra_simps)
  have fi: "float_int (true_div (int n) d) = int (fst (true_div_nat n d) div snd (true_div_nat n d))"
    by (simp add: true_div_def float_int_def zdiv_int split: prod.splits)
  have "fst (true_div_nat n d) div snd (true_div_nat n d) < N"
  proof (cases "n = 0")
    case True
    then show ?thesis by (simp add: true_div_nat_def N_def)
  next
    case False
    then have npos: "0 < n" by simp
    show ?thesis
    proof (cases "double_exponent n d \<le> 52")
      case True
      obtain m s where
        td: "true_div_nat n d = (m, 2 ^ s)"
        and s: "int s = 52 - double_exponent n d"
        and up: "2 * (m * d) \<le> 2 * (n * 2 ^ s) + d"
        by (rule true_div_nat_mantissa [OF npos dpos True])
      define D :: nat where "D = 2 ^ s"
      have Dpos: "0 < D" by (simp add: D_def)
      have "(n + N) * D \<le> d * N * D" using nN by (rule mult_le_mono1)
      then have nD: "n * D + N * D \<le> d * (N * D)" by (simp add: algebra_simps)
      have dND: "d < 2 * (N * D)"
      proof (cases "d \<le> n")
        case False
        then have "double_exponent n d \<le> - 1" by (intro double_exponent_lt) simp
        then have "53 \<le> s" using s by linarith
        then have "(2::nat) ^ 53 \<le> 2 ^ s" by (simp only: power_increasing_iff rel_simps)
        then have "d \<le> D" by (simp add: d_def D_def)
        moreover have "D * 2 \<le> N * D" by (simp add: N_def)
        ultimately show ?thesis using Dpos by linarith
      next
        case ge: True
        define L where "L = ilog2 (n div d)"
        have e: "double_exponent n d = int L" and lo: "2 ^ L * d \<le> n"
          using double_exponent_ge [OF dpos ge] by (simp_all add: L_def)
        have "2 ^ L * d + N \<le> d * N" using lo nN by linarith
        then have "2 ^ L * d < N * d" using N_def by (simp add: mult.commute)
        then have LN: "2 ^ L < N" by simp
        have "s + L = 52" using s e by linarith
        then have "(2::nat) ^ s * 2 ^ L = 2 ^ 52" by (simp only: power_add [symmetric])
        then have "d = 2 * (2 ^ s * 2 ^ L)" by (simp add: d_def)
        then have "d = 2 * (2 ^ L * D)" by (simp only: D_def mult.commute)
        moreover have "2 ^ L * D < N * D" using LN Dpos by simp
        ultimately show ?thesis by simp
      qed
      have "2 * (m * d) \<le> 2 * (n * D) + d" using up by (simp only: D_def)
      then have "2 * (m * d) < 2 * (d * (N * D))"
        using nD dND by linarith
      then have "m * d < (N * D) * d" by (simp add: mult.commute)
      then have "m < N * D" by simp
      then have "m div D < N" using Dpos by (simp add: less_mult_imp_div_less)
      then show ?thesis by (simp add: td D_def)
    next
      case False
      then have big: "52 < double_exponent n d" by simp
      have ge: "d \<le> n"
      proof (rule ccontr)
        assume "\<not> d \<le> n"
        then have "double_exponent n d \<le> - 1" by (intro double_exponent_lt) simp
        then show False using big by simp
      qed
      define L where "L = ilog2 (n div d)"
      have e: "double_exponent n d = int L" and lo: "2 ^ L * d \<le> n"
        using double_exponent_ge [OF dpos ge] by (simp_all add: L_def)
      define s where "s = nat (double_exponent n d - 52)"
      define M where "M = round_half_even n (d * 2 ^ s)"
      have td: "true_div_nat n d = (M * 2 ^ s, 1)"
        using npos False by (simp add: true_div_nat_def M_def s_def)
      have "2 ^ L * d + N \<le> d * N" using lo nN by linarith
      then have "2 ^ L * d < N * d" using N_def by (simp add: mult.commute)
      then have LN: "2 ^ L < N" by simp
      have "L = 52 + s" using e big by (simp add: s_def)
      then have "(2::nat) ^ L = 2 ^ 52 * 2 ^ s" by (simp only: power_add)
      then have "d * 2 ^ s = 2 * 2 ^ L" by (simp add: d_def)
      then have ds: "d * 2 ^ s < 2 * N" using LN by simp
      have "2 * (M * (d * 2 ^ s)) \<le> 2 * n + d * 2 ^ s"
        unfolding M_def by (rule round_half_even_bounds(1)) (simp add: dpos)
      moreover have "M * (d * 2 ^ s) = M * 2 ^ s * d" by (simp add: mult_ac)
      ultimately have "2 * (M * 2 ^ s * d) < 2 * n + 2 * N" using ds by linarith
      moreover have "d * N = N * d" by (rule mult.commute)
      ultimately have "M * 2 ^ s * d < N * d" using nN by linarith
      then have "M * 2 ^ s < N" by simp
      then show ?thesis by (simp add: td)
    qed
  qed
  then have "float_int (true_div (int n) d) < int N" using fi by simp
  then show ?thesis by (simp add: n_def N_def d_def)
qed

subsection \<open>The random generator and the shuffle\<close>

lemma from_bytes_big_snoc: "from_bytes_big (bs @ [b]) = from_bytes_big bs * 256 + b"
  by (simp add: from_bytes_big_def)

lemma from_bytes_big_bound:
  "\<forall>b \<in> set bs. b < 256 \<Longrightarrow> from_bytes_big bs < 256 ^ length bs"
proof (induction bs rule: rev_induct)
  case Nil
  then show ?case by (simp add: from_bytes_big_def)
next
  case (snoc b bs)
  then have "from_bytes_big bs < 256 ^ length bs" and "b < 256" by simp_all
  then have "from_bytes_big bs * 256 + b < (from_bytes_big bs + 1) * 256" by simp
  also have "\<dots> \<le> 256 ^ length bs * 256"
    using \<open>from_bytes_big bs < 256 ^ length bs\<close> by (intro mult_le_mono1) simp
  finally show ?case by (simp add: from_bytes_big_snoc)
qed

lemma urandom_length: "length (fst (urandom n g)) = n"
  by (simp add: urandom_def)

lemma urandom_bytes: "\<forall>b \<in> set (fst (urandom n g)). b < 256"
  by (simp add: urandom_def)

lemma random53_bound: "fst (random53 g) < 2 ^ 53"
proof -
  obtain bs g' where u: "urandom 7 g = (bs, g')" by (cases "urandom 7 g")
  have "length bs = 7" and "\<forall>b \<in> set bs. b < 256"
    using urandom_length [of 7 g] urandom_bytes [of 7 g] u by simp_all
  then have "from_bytes_big bs < 256 ^ 7"
    using from_bytes_big_bound [of bs] by simp
  then have "from_bytes_big bs div 8 < 2 ^ 53" by simp
  then show ?thesis by (simp add: random53_def u)
qed

lemma shuffle_loop_mset:
  "i < length xs \<Longrightarrow> mset (fst (shuffle_loop i xs g)) = mset xs"
proof (induction i arbitrary: xs g)
  case 0
  then show ?case by simp
next
  case (Suc i)
  obtain r g' where rg: "random53 g = (r, g')" by (cases "random53 g")
  define j where "j = nat (float_int (true_div (int (r * (Suc i + 1))) (2 ^ 53)))"
  have "r < 2 ^ 53" using random53_bound [of g] rg by simp
  then have j: "j \<le> Suc i" using shuffle_index [of r i] by (simp add: j_def)
  define ys where "ys = xs[Suc i := xs ! j, j := xs ! Suc i]"
  have jl: "j < length xs" using j Suc.prems by simp
  have "mset ys = mset xs"
    unfolding ys_def using Suc.prems jl by (simp add: mset_swap)
  moreover have "i < length ys" using Suc.prems by (simp add: ys_def)
  ultimately have "mset (fst (shuffle_loop i ys g')) = mset xs"
    using Suc.IH [of ys g'] by simp
  then show ?case by (simp add: rg j_def ys_def Let_def)
qed

lemma secure_shuffle_mset [simp]: "mset (fst (secure_shuffle xs g)) = mset xs"
proof (cases xs)
  case Nil
  then show ?thesis by (simp add: secure_shuffle_def)
next
  case (Cons a list)
  then show ?thesis by (simp add: secure_shuffle_def shuffle_loop_mset)
qed

lemma secure_shuffle_set [simp]: "set (fst (secure_shuffle xs g)) = set xs"
  using secure_shuffle_mset [of xs g] by (metis set_mset_mset)

lemma secure_shuffle_length [simp]: "length (fst (secure_shuffle xs g)) = length xs"
  using secure_shuffle_mset [of xs g] by (metis size_mset)

subsection \<open>Times\<close>

lemma day_start_aligned: "day_start_from_time t mod SECONDS_PER_DAY = 0"
  by (simp add: day_start_from_time_def)

lemma batch_start_aligned: "batch_start_from_time t mod SECONDS_PER_BATCH = 0"
  by (simp add: batch_start_from_time_def)

lemma day_aligned_batch_aligned:
  assumes "t mod SECONDS_PER_DAY = 0"
  shows "t mod SECONDS_PER_BATCH = 0"
proof -
  have "SECONDS_PER_BATCH dvd SECONDS_PER_DAY"
    by (simp add: SECONDS_PER_BATCH_def SECONDS_PER_DAY_def)
  then have "t mod SECONDS_PER_DAY mod SECONDS_PER_BATCH = t mod SECONDS_PER_BATCH"
    by (rule mod_mod_cancel)
  with assms show ?thesis by simp
qed

subsection \<open>Lengths of digests and cipher blocks\<close>

lemma sha_round_length [simp]: "length (sha_round k w s) = length s"
  by (induction k w s rule: sha_round.induct) simp_all

lemma sha_rounds_length: "length (sha_rounds ks w s) = length s"
  by (induction ks arbitrary: w s) simp_all

lemma sha_compress_length: "length h = 8 \<Longrightarrow> length (sha_compress h m) = 8"
  by (simp add: sha_compress_def sha_rounds_length)

lemma foldl_sha_compress_length:
  "length h = 8 \<Longrightarrow> length (foldl sha_compress h blocks) = 8"
  by (induction blocks arbitrary: h) (simp_all add: sha_compress_length)

lemma concat_word_bytes_length: "length (concat (map word_bytes ws)) = 4 * length ws"
  by (induction ws) (simp_all add: word_bytes_def)

lemma sha256_length: "length (sha256 m) = 32"
proof -
  have "length sha256_H0 = 8" by (simp add: sha256_H0_def)
  then show ?thesis
    by (simp add: sha256_def concat_word_bytes_length foldl_sha_compress_length)
qed

lemma hmac_sha256_length: "length (hmac_sha256 key msg) = 32"
  by (simp add: hmac_sha256_def Let_def sha256_length)

lemma chunks_exact:
  "0 < n \<Longrightarrow> length xs = k * n \<Longrightarrow>
   length (chunks n xs) = k \<and> (\<forall>c \<in> set (chunks n xs). length c = n)"
proof (induction k arbitrary: xs)
  case 0
  then show ?case by simp
next
  case (Suc k)
  then obtain x xs' where xs: "xs = x # xs'" by (cases xs) auto
  have "length (drop n xs) = k * n" using Suc.prems by simp
  then have IH: "length (chunks n (drop n xs)) = k \<and> (\<forall>c \<in> set (chunks n (drop n xs)). length c = n)"
    using Suc.IH Suc.prems(1) by blast
  have "length (take n xs) = n" using Suc.prems by simp
  moreover have "chunks n xs = take n xs # chunks n (drop n xs)"
    using Suc.prems(1) by (simp add: xs)
  ultimately show ?case using IH by simp
qed

lemma chunks_subset: "c \<in> set (chunks n xs) \<Longrightarrow> set c \<subseteq> set xs"
proof (induction n xs rule: chunks.induct)
  case (1 n)
  then show ?case by simp
next
  case (2 n x xs)
  show ?case
  proof (cases "n = 0")
    case True
    with "2.prems" show ?thesis by simp
  next
    case False
    with "2.prems" have "c = take n (x # xs) \<or> c \<in> set (chunks n (drop n (x # xs)))" by simp
    then show ?thesis
    proof
      assume "c = take n (x # xs)"
      then show ?thesis by (metis set_take_subset)
    next
      assume "c \<in> set (chunks n (drop n (x # xs)))"
      then have "set c \<subseteq> set (drop n (x # xs))" using "2.IH" False by blast
      then show ?thesis using set_drop_subset by fastforce
    qed
  qed
qed

lemma xor_bytes_length: "length (xor_bytes xs ys) = min (length xs) (length ys)"
  by (simp add: xor_bytes_def)

lemma key_word_length:
  assumes "\<forall>x \<in> set w. length x = 4" "w \<noteq> []" "0 < nk"
  shows "length (key_word nk (length w) w) = 4"
proof -
  have a: "length (w ! (length w - 1)) = 4" using assms(1,2) by simp
  have b: "length (w ! (length w - nk)) = 4" using assms by simp
  have "length (rot_word (w ! (length w - 1))) = 4"
    using a by (simp add: rot_word_def)
  then show ?thesis
    using a b by (simp add: key_word_def Let_def xor_bytes_length sub_bytes_def)
qed

lemma expand_words_shape:
  "\<forall>x \<in> set w. length x = 4 \<Longrightarrow> w \<noteq> [] \<Longrightarrow> 0 < nk \<Longrightarrow>
   (\<forall>x \<in> set (expand_words nk n w). length x = 4) \<and> length (expand_words nk n w) = length w + n"
proof (induction n arbitrary: w)
  case 0
  then show ?case by simp
next
  case (Suc n)
  define w' where "w' = w @ [key_word nk (length w) w]"
  have kw: "length (key_word nk (length w) w) = 4" using Suc.prems by (rule key_word_length)
  have a: "\<forall>x \<in> set w'. length x = 4" using Suc.prems(1) kw by (simp add: w'_def)
  have b: "w' \<noteq> []" by (simp add: w'_def)
  have IH: "(\<forall>x \<in> set (expand_words nk n w'). length x = 4) \<and> length (expand_words nk n w') = length w' + n"
    using a b Suc.prems(3) by (rule Suc.IH)
  have e: "expand_words nk (Suc n) w = expand_words nk n w'" by (simp add: w'_def)
  have l: "length w' = Suc (length w)" by (simp add: w'_def)
  show ?case unfolding e using IH l by simp
qed

lemma key_expansion_shape:
  assumes "length key = 32"
  shows "length (key_expansion key) = 15" and "\<forall>rk \<in> set (key_expansion key). length rk = 16"
proof -
  have k: "length (chunks 4 key) = 8 \<and> (\<forall>c \<in> set (chunks 4 key). length c = 4)"
    using chunks_exact [of 4 key 8] assms by simp
  then have ne: "chunks 4 key \<noteq> []" by auto
  define ws where "ws = expand_words 8 52 (chunks 4 key)"
  have ws: "(\<forall>x \<in> set ws. length x = 4) \<and> length ws = 60"
    using expand_words_shape [of "chunks 4 key" 8 52] k ne by (simp add: ws_def)
  have c: "length (chunks 4 ws) = 15 \<and> (\<forall>c \<in> set (chunks 4 ws). length c = 4)"
    using chunks_exact [of 4 ws 15] ws by simp
  have ke: "key_expansion key = map concat (chunks 4 ws)"
    using assms by (simp add: key_expansion_def ws_def)
  show "length (key_expansion key) = 15" using c by (simp add: ke)
  show "\<forall>rk \<in> set (key_expansion key). length rk = 16"
  proof
    fix rk assume "rk \<in> set (key_expansion key)"
    then obtain c where cin: "c \<in> set (chunks 4 ws)" and rk: "rk = concat c" by (auto simp: ke)
    have len: "length c = 4" using c cin by blast
    have "set c \<subseteq> set ws" using cin by (rule chunks_subset)
    then have "\<forall>x \<in> set c. length x = 4" using ws by blast
    then have "map length c = replicate (length c) 4" by (simp add: map_replicate_const [symmetric] cong: map_cong)
    then show "length rk = 16" by (simp add: rk length_concat len sum_list_replicate)
  qed
qed

lemma aes_encrypt_block_length:
  assumes "rks \<noteq> []" "length (last rks) = 16"
  shows "length (aes_encrypt_block rks blk) = 16"
  using assms
  by (simp add: aes_encrypt_block_def aes_final_round_def xor_bytes_length shift_rows_def)

subsection \<open>The keystream of a day key\<close>

lemma xor_bytes_zero: "length ks = n \<Longrightarrow> xor_bytes (replicate n 0) ks = ks"
  by (rule nth_equalityI) (simp_all add: xor_bytes_def)

lemma concat_blocks_length:
  "\<forall>i<n. length (f i) = b \<Longrightarrow> length (concat (map f [0..<n])) = b * n"
  by (induction n) simp_all

lemma concat_blocks_slice:
  "\<forall>i<n. length (f i) = b \<Longrightarrow> i < n \<Longrightarrow>
   take b (drop (i * b) (concat (map f [0..<n]))) = f i"
proof (induction n)
  case 0
  then show ?case by simp
next
  case (Suc n)
  define A where "A = concat (map f [0..<n])"
  have lenA: "length A = b * n" unfolding A_def using Suc.prems(1) by (intro concat_blocks_length) simp
  have lenB: "length (f n) = b" using Suc.prems(1) by simp
  have c: "concat (map f [0..<Suc n]) = A @ f n" by (simp add: A_def)
  show ?case
  proof (cases "i = n")
    case True
    have "drop (n * b) (A @ f n) = f n" using lenA by (simp add: mult.commute)
    then show ?thesis unfolding c True using lenB by simp
  next
    case False
    then have i: "i < n" using Suc.prems(2) by simp
    have IH: "take b (drop (i * b) A) = f i" unfolding A_def using Suc.prems(1) i by (intro Suc.IH) simp_all
    have "Suc i \<le> n" using i by simp
    then have "Suc i * b \<le> n * b" by (rule mult_le_mono1)
    then have le: "i * b + b \<le> length A" using lenA by (simp add: mult.commute)
    then have "drop (i * b) (A @ f n) = drop (i * b) A @ f n" by simp
    moreover have "b \<le> length (drop (i * b) A)" using le by simp
    ultimately show ?thesis unfolding c using IH by simp
  qed
qed

lemma counter_mod: "i < 96 \<Longrightarrow> (0 + i) mod 2 ^ 128 = (i::nat)"
proof -
  assume "i < 96"
  moreover have "(96::nat) < 2 ^ 128" by simp
  ultimately have "i < 2 ^ 128" by (rule less_trans)
  then show ?thesis by simp
qed

lemma day_blocks_length:
  "length (aes_encrypt_block (key_expansion (hmac_sha256 k BROADCAST_KEY)) blk) = 16"
proof -
  define rks where "rks = key_expansion (hmac_sha256 k BROADCAST_KEY)"
  have l: "length rks = 15" and a: "\<forall>rk \<in> set rks. length rk = 16"
    unfolding rks_def by (rule key_expansion_shape, rule hmac_sha256_length)+
  from l have ne: "rks \<noteq> []" by auto
  then have "last rks \<in> set rks" by simp
  then have "length (last rks) = 16" using a by blast
  with ne show ?thesis unfolding rks_def [symmetric] by (rule aes_encrypt_block_length)
qed

lemma prg_output_bytes_blocks:
  "prg_output_bytes k =
   concat (map (\<lambda>i. aes_encrypt_block (key_expansion (hmac_sha256 k BROADCAST_KEY)) (counter_block i))
               [0..<96])"
proof -
  define f where "f = (\<lambda>i. aes_encrypt_block (key_expansion (hmac_sha256 k BROADCAST_KEY)) (counter_block i))"
  have m: "map (\<lambda>i. aes_encrypt_block (key_expansion (hmac_sha256 k BROADCAST_KEY))
                        (counter_block ((0 + i) mod 2 ^ 128))) [0..<96] = map f [0..<96]"
    unfolding f_def by (rule map_cong [OF refl]) (simp only: counter_mod atLeastLessThan_iff set_upt)
  have len: "length (concat (map f [0..<96])) = 16 * 96"
    by (rule concat_blocks_length) (simp add: f_def day_blocks_length)
  have n: "LENGTH_EPHID * NUM_EPOCHS_PER_DAY = 1536"
    by (simp add: LENGTH_EPHID_def NUM_EPOCHS_PER_DAY_def)
  have d: "(length (replicate 1536 (0::nat)) + 15) div 16 = 96" by simp
  have "prg_output_bytes k = xor_bytes (replicate 1536 0) (concat (map f [0..<96]))"
    unfolding prg_output_bytes_def aes_ctr_encrypt_def Let_def n d m ..
  also have "\<dots> = concat (map f [0..<96])" using len by (intro xor_bytes_zero) simp
  finally show ?thesis unfolding f_def .
qed

lemma prg_output_bytes_length: "length (prg_output_bytes k) = 1536"
proof -
  have "length (prg_output_bytes k) = 16 * 96"
    unfolding prg_output_bytes_blocks by (rule concat_blocks_length) (simp add: day_blocks_length)
  then show ?thesis by simp
qed

lemma ephids_unshuffled:
  "map (\<lambda>idx. take LENGTH_EPHID (drop idx (prg_output_bytes k)))
       (range_step (length (prg_output_bytes k)) LENGTH_EPHID) =
   map (\<lambda>i. aes_encrypt_block (key_expansion (hmac_sha256 k BROADCAST_KEY)) (counter_block i)) [0..<96]"
proof -
  define f where "f = (\<lambda>i. aes_encrypt_block (key_expansion (hmac_sha256 k BROADCAST_KEY)) (counter_block i))"
  have out: "prg_output_bytes k = concat (map f [0..<96])" unfolding f_def by (rule prg_output_bytes_blocks)
  have r: "range_step (length (prg_output_bytes k)) LENGTH_EPHID = map (\<lambda>i. i * 16) [0..<96]"
    by (simp add: range_step_def prg_output_bytes_length LENGTH_EPHID_def)
  have s: "take 16 (drop (i * 16) (concat (map f [0..<96]))) = f i" if "i < 96" for i
    using _ that by (rule concat_blocks_slice) (simp add: f_def day_blocks_length)
  have "map (\<lambda>idx. take LENGTH_EPHID (drop idx (prg_output_bytes k)))
            (range_step (length (prg_output_bytes k)) LENGTH_EPHID) =
        map (\<lambda>i. take 16 (drop (i * 16) (concat (map f [0..<96])))) [0..<96]"
    by (subst r) (simp add: out LENGTH_EPHID_def o_def)
  also have "\<dots> = map f [0..<96]"
    by (rule map_cong [OF refl]) (simp add: s)
  finally show ?thesis unfolding f_def .
qed

lemma generate_ephids_for_day_unshuffled:
  "generate_ephids_for_day k False g =
   (map (\<lambda>i. aes_encrypt_block (key_expansion (hmac_sha256 k BROADCAST_KEY)) (counter_block i)) [0..<96], g)"
  unfolding generate_ephids_for_day_def Let_def ephids_unshuffled by simp

lemma generate_ephids_for_day_shuffled:
  "mset (fst (generate_ephids_for_day k True g)) =
   mset (map (\<lambda>i. aes_encrypt_block (key_expansion (hmac_sha256 k BROADCAST_KEY)) (counter_block i)) [0..<96])"
  unfolding generate_ephids_for_day_def Let_def ephids_unshuffled by simp

lemma generate_ephids_for_day_length: "length (fst (generate_ephids_for_day k sh g)) = 96"
  unfolding generate_ephids_for_day_def Let_def ephids_unshuffled by simp

section \<open>Low-cost tracer: simple facts\<close>

lemma py_getitem_nat: "i < length xs \<Longrightarrow> py_getitem xs (int i) = Inr (xs ! i)"
  by (simp add: py_getitem_def)

lemma day_start_early:
  assumes "0 \<le> t" "t < 17179869184000000"
  shows "day_start_from_time t = t div 1000000 div 86400 * 86400"
    and "batch_start_from_time t = t div 1000000 div 7200 * 7200"
  using timestamp_early(1) [OF assms]
  by (simp_all add: day_start_from_time_def batch_start_from_time_def SECONDS_PER_DAY_def
        SECONDS_PER_BATCH_def)

lemma day_start_zero: "day_start_from_time 0 = 0"
  by (simp add: day_start_early)

lemma lc_example_fields:
  "past_keys lc_example = [next_day_key (fst (generate_new_day_key zero_entropy)),
                           fst (generate_new_day_key zero_entropy)]"
  "start_of_today lc_example = 172800"
  "current_day_key lc_example =
     next_day_key (next_day_key (fst (generate_new_day_key zero_entropy)))"
  "observations lc_example = []"
  by (simp_all add: lc_example_def lc_run_def lc_init_def lc_next_day_def day_start_zero
        SECONDS_PER_DAY_def RETENTION_PERIOD_def Let_def split: prod.splits)

lemma generate_new_day_key_bytes:
  "generate_new_day_key g = (map (\<lambda>i. g i mod 256) [0..<32], (\<lambda>i. g (i + 32)))"
  by (simp add: generate_new_day_key_def token_bytes_def urandom_def)

lemma days_back_index:
  assumes "0 \<le> n" "\<not> n > int (length ps)" "n \<noteq> 0"
  shows "py_getitem ps (n - 1) = Inr (ps ! nat (n - 1))"
proof -
  have "nat (n - 1) < length ps" using assms by linarith
  then have "py_getitem ps (int (nat (n - 1))) = Inr (ps ! nat (n - 1))"
    by (rule py_getitem_nat)
  moreover have "int (nat (n - 1)) = n - 1" using assms by simp
  ultimately show ?thesis by simp
qed

section \<open>Tracing information of the low-cost tracer\<close>

text \<open>
  C4. \<open>get_tracing_information\<close> of the low-cost tracer, with \<open>days_back\<close> the number
  of days from the day of \<open>first_contagious_time\<close> to the current day: it raises the
  ValueError for an unavailable tracing key exactly when \<open>days_back < 0\<close> or
  \<open>days_back > len(past_keys)\<close>, and then leaves the tracer as it was; otherwise it
  returns the start of the contagious day with \<open>current_day_key\<close> when \<open>days_back = 0\<close>
  and with \<open>past_keys[days_back - 1]\<close> otherwise. When \<open>reset_key_after_release\<close> is
  true, a call that returns also replaces \<open>current_day_key\<close> by a fresh random key,
  the next 32 bytes of the random generator, whatever the key was before; it
  regenerates \<open>current_ephids\<close> from that key: they are, in some order, the 96
  blocks of 16 bytes of the AES-CTR keystream under the key
  \<open>HMAC-SHA256(current_day_key, "broadcast key")\<close>; it empties \<open>past_keys\<close> and leaves
  the observations and the start of the day as they were. When the flag is false the
  tracer is unchanged.
\<close>

theorem lc_get_tracing_information_spec:
  assumes "days_back = (start_of_today st - day_start_from_time first_time) div SECONDS_PER_DAY"
    and "r = lc_get_tracing_information first_time last_time reset g st"
  shows "(days_back < 0 \<or> days_back > int (length (past_keys st)) \<longrightarrow>
            r = (Inl (ValueError ''The requested tracing key is not available''), st))
       \<and> (days_back = 0 \<longrightarrow>
            fst r = Inr (day_start_from_time first_time, current_day_key st))
       \<and> (0 < days_back \<and> days_back \<le> int (length (past_keys st)) \<longrightarrow>
            fst r = Inr (day_start_from_time first_time, past_keys st ! nat (days_back - 1)))
       \<and> (0 \<le> days_back \<and> days_back \<le> int (length (past_keys st)) \<and> reset \<longrightarrow>
            current_day_key (snd r) = map (\<lambda>i. g i mod 256) [0..<32]
            \<and> mset (current_ephids (snd r)) =
                mset (map (\<lambda>i. aes_encrypt_block
                                   (key_expansion (hmac_sha256 (current_day_key (snd r)) BROADCAST_KEY))
                                   (counter_block i)) [0..<96])
            \<and> past_keys (snd r) = []
            \<and> observations (snd r) = observations st
            \<and> start_of_today (snd r) = start_of_today st)
       \<and> (0 \<le> days_back \<and> days_back \<le> int (length (past_keys st)) \<and> \<not> reset \<longrightarrow>
            snd r = st)"
proof -
  define k where "k = map (\<lambda>i. g i mod 256) [0..<32]"
  define g1 where "g1 = (\<lambda>i. g (i + 32))"
  define st' where "st' = st\<lparr>current_day_key := k,
                              current_ephids := fst (generate_ephids_for_day k True g1),
                              past_keys := []\<rparr>"
  have gen: "generate_new_day_key g = (k, g1)"
    by (simp add: generate_new_day_key_bytes k_def g1_def)
  have new: "current_day_key st' = k \<and>
             mset (current_ephids st') =
                mset (map (\<lambda>i. aes_encrypt_block
                                   (key_expansion (hmac_sha256 (current_day_key st') BROADCAST_KEY))
                                   (counter_block i)) [0..<96])
             \<and> past_keys st' = [] \<and> observations st' = observations st
             \<and> start_of_today st' = start_of_today st"
    by (simp add: st'_def generate_ephids_for_day_shuffled)
  show ?thesis
  proof (cases "days_back < 0 \<or> days_back > int (length (past_keys st))")
    case True
    then show ?thesis
      using assms(1,2) by (auto simp: lc_get_tracing_information_def Let_def)
  next
    case False
    define key where "key = (if days_back = 0 then current_day_key st
                              else past_keys st ! nat (days_back - 1))"
    have idx: "(if days_back = 0 then Inr (current_day_key st)
                else py_getitem (past_keys st) (days_back - 1)) = Inr key"
    proof (cases "days_back = 0")
      case True
      then show ?thesis by (simp add: key_def)
    next
      case nz: False
      have "py_getitem (past_keys st) (days_back - 1) = Inr (past_keys st ! nat (days_back - 1))"
        using False nz by (intro days_back_index) auto
      then show ?thesis using nz by (simp add: key_def)
    qed
    have r: "r = (Inr (day_start_from_time first_time, key), if reset then st' else st)"
      unfolding assms(2) lc_get_tracing_information_def Let_def assms(1) [symmetric] idx gen
      using False by (auto simp: st'_def)
    show ?thesis
      using False new k_def by (auto simp: r key_def)
  qed
qed

lemma lc_example_days_back:
  "(start_of_today lc_example - day_start_from_time 0) div SECONDS_PER_DAY = 2"
  "(start_of_today lc_example - day_start_from_time 259200000000) div SECONDS_PER_DAY = - 1"
  by (simp_all add: lc_example_fields day_start_early SECONDS_PER_DAY_def)

theorem lc_get_tracing_information_spec_witness:
  "(start_of_today lc_example - day_start_from_time 0) div SECONDS_PER_DAY = 2
   \<and> (0::int) < 2 \<and> 2 \<le> int (length (past_keys lc_example))
   \<and> fst (lc_get_tracing_information 0 None True zero_entropy lc_example)
       = Inr (0, fst (generate_new_day_key zero_entropy))
   \<and> current_day_key (snd (lc_get_tracing_information 0 None True zero_entropy lc_example))
       = map (\<lambda>i. zero_entropy i mod 256) [0..<32]
   \<and> past_keys (snd (lc_get_tracing_information 0 None True zero_entropy lc_example)) = []
   \<and> (start_of_today lc_example - day_start_from_time 259200000000) div SECONDS_PER_DAY = - 1
   \<and> lc_get_tracing_information 259200000000 None True zero_entropy lc_example
       = (Inl (ValueError ''The requested tracing key is not available''), lc_example)"
proof -
  note ok = lc_get_tracing_information_spec
    [OF refl refl, of lc_example 0 None True zero_entropy, unfolded lc_example_days_back]
  note bad = lc_get_tracing_information_spec
    [OF refl refl, of lc_example 259200000000 None True zero_entropy, unfolded lc_example_days_back]
  have len: "int (length (past_keys lc_example)) = 2" by (simp add: lc_example_fields)
  have "fst (lc_get_tracing_information 0 None True zero_entropy lc_example)
          = Inr (0, past_keys lc_example ! nat (2 - 1))"
    using ok len by (simp add: day_start_zero)
  moreover have "past_keys lc_example ! nat (2 - 1) = fst (generate_new_day_key zero_entropy)"
    by (simp add: lc_example_fields)
  moreover have "current_day_key (snd (lc_get_tracing_information 0 None True zero_entropy lc_example))
       = map (\<lambda>i. zero_entropy i mod 256) [0..<32]"
    using ok len by simp
  moreover have "past_keys (snd (lc_get_tracing_information 0 None True zero_entropy lc_example)) = []"
    using ok len by simp
  moreover have "lc_get_tracing_information 259200000000 None True zero_entropy lc_example
       = (Inl (ValueError ''The requested tracing key is not available''), lc_example)"
    using bad by simp
  ultimately show ?thesis
    using len by (simp add: lc_example_days_back)
qed

section \<open>Batch alignment\<close>

text \<open>
  C9. Constructing a low-cost batch with an explicit release time succeeds exactly when
  the release time is a multiple of \<open>SECONDS_PER_BATCH\<close> = 7200; otherwise the
  constructor raises the ValueError for a release time that is not batch-aligned. On
  success the batch stores the given release time (and the given pairs).
\<close>

theorem lc_batch_init_aligned:
  "SECONDS_PER_BATCH = 7200 \<and>
   (r mod 7200 = 0 \<longrightarrow>
      lc_batch_init now pairs (Some r) = Inr \<lparr>release_time = r, time_key_pairs = pairs\<rparr>) \<and>
   (r mod 7200 \<noteq> 0 \<longrightarrow>
      lc_batch_init now pairs (Some r) = Inl (ValueError ''Release time must be batch-aligned'')) \<and>
   (\<forall>b. lc_batch_init now pairs (Some r) = Inr b \<longrightarrow> release_time b = r \<and> r mod 7200 = 0)"
  by (auto simp: lc_batch_init_def SECONDS_PER_BATCH_def)

theorem lc_batch_init_aligned_witness:
  "(1587823200::int) mod 7200 = 0 \<and> (1587827820::int) mod 7200 \<noteq> 0 \<and>
   lc_batch_init 0 [] (Some 1587823200) = Inr \<lparr>release_time = 1587823200, time_key_pairs = []\<rparr> \<and>
   lc_batch_init 0 [] (Some 1587827820) = Inl (ValueError ''Release time must be batch-aligned'')"
proof -
  have a1: "(1587823200::int) mod 7200 = 0" by simp
  have a2: "(1587827820::int) mod 7200 \<noteq> 0" by simp
  from lc_batch_init_aligned [of 1587823200 0 "[]"] a1
  have r1: "lc_batch_init 0 [] (Some 1587823200) =
            Inr \<lparr>release_time = 1587823200, time_key_pairs = []\<rparr>"
    by blast
  from lc_batch_init_aligned [of 1587827820 0 "[]"] a2
  have r2: "lc_batch_init 0 [] (Some 1587827820) =
            Inl (ValueError ''Release time must be batch-aligned'')"
    by blast
  show ?thesis using a1 a2 r1 r2 by blast
qed

section \<open>The key chain of the low-cost tracer\<close>

lemma chained_take: "chained k ps \<Longrightarrow> chained k (take n ps)"
proof (induction ps arbitrary: k n)
  case Nil
  then show ?case by simp
next
  case (Cons p ps)
  then show ?case by (cases n) simp_all
qed

lemma chained_nth:
  "chained k ps \<Longrightarrow> i + 1 < length ps \<Longrightarrow> ps ! i = next_day_key (ps ! (i + 1))"
proof (induction ps arbitrary: k i)
  case Nil
  then show ?case by simp
next
  case (Cons p ps)
  show ?case
  proof (cases i)
    case 0
    with Cons.prems show ?thesis by (cases ps) simp_all
  next
    case (Suc j)
    with Cons.prems Cons.IH [of p j] show ?thesis by simp
  qed
qed

lemma chained_hd: "chained k ps \<Longrightarrow> ps \<noteq> [] \<Longrightarrow> k = next_day_key (ps ! 0)"
  by (cases ps) simp_all

lemma chained_init: "chained (current_day_key (lc_init t g)) (past_keys (lc_init t g))"
  by (simp add: lc_init_def split: prod.splits)

lemma chained_next_day:
  assumes "chained (current_day_key st) (past_keys st)"
  shows "chained (current_day_key (lc_next_day g st)) (past_keys (lc_next_day g st))"
proof -
  have "chained (next_day_key (current_day_key st)) (current_day_key st # past_keys st)"
    using assms by simp
  then have "chained (next_day_key (current_day_key st))
               (take RETENTION_PERIOD (current_day_key st # past_keys st))"
    by (rule chained_take)
  then show ?thesis by (simp add: lc_next_day_def Let_def)
qed

lemma add_observation_keys:
  "past_keys (snd (lc_add_observation e t g st)) = past_keys st"
  "current_day_key (snd (lc_add_observation e t g st)) = current_day_key st"
  "start_of_today (snd (lc_add_observation e t g st)) = start_of_today st"
  "current_ephids (snd (lc_add_observation e t g st)) = current_ephids st"
  by (simp_all add: lc_add_observation_def Let_def)

lemma housekeeping_keys:
  "past_keys (housekeeping_after_batch b g st) = past_keys st"
  "current_day_key (housekeeping_after_batch b g st) = current_day_key st"
  "start_of_today (housekeeping_after_batch b g st) = start_of_today st"
  "current_ephids (housekeeping_after_batch b g st) = current_ephids st"
  by (simp_all add: housekeeping_after_batch_def Let_def)

lemma tracing_information_keys:
  "snd (lc_get_tracing_information t l r g st) = st \<or>
   (r \<and> snd (lc_get_tracing_information t l r g st) =
      st\<lparr>current_day_key := fst (generate_new_day_key g),
         current_ephids := fst (generate_ephids_for_day (fst (generate_new_day_key g)) True
                                  (snd (generate_new_day_key g))),
         past_keys := []\<rparr>)"
  by (auto simp: lc_get_tracing_information_def Let_def split: prod.splits sum.splits)

lemma chained_tracing_information:
  assumes "chained (current_day_key st) (past_keys st)"
  shows "chained (current_day_key (snd (lc_get_tracing_information t l r g st)))
                 (past_keys (snd (lc_get_tracing_information t l r g st)))"
  using tracing_information_keys [of t l r g st] assms by auto

lemma chained_step:
  "chained (current_day_key st) (past_keys st) \<Longrightarrow>
   chained (current_day_key (lc_step op st)) (past_keys (lc_step op st))"
  by (cases op)
     (simp_all add: chained_next_day add_observation_keys housekeeping_keys
        chained_tracing_information)

lemma chained_run:
  "chained (current_day_key st) (past_keys st) \<Longrightarrow>
   chained (current_day_key (lc_run ops st)) (past_keys (lc_run ops st))"
  unfolding lc_run_def
  by (induction ops arbitrary: st) (simp_all add: chained_step)

text \<open>
  C10. The key chain of the low-cost tracer. After any sequence of operations on a new
  tracer, whenever \<open>past_keys\<close> is not empty the current day key is the SHA-256 hash
  of \<open>past_keys[0]\<close>, and for every index \<open>i\<close> with \<open>i + 1 < len(past_keys)\<close>,
  \<open>past_keys[i]\<close> is the hash of \<open>past_keys[i + 1]\<close>. Every operation preserves
  this; \<open>get_tracing_information\<close> with \<open>reset_key_after_release\<close> true, when it
  returns, empties \<open>past_keys\<close> and so keeps it trivially.
\<close>

theorem lc_key_chain:
  assumes "st = lc_run ops (lc_init t g)"
  shows "(past_keys st \<noteq> [] \<longrightarrow> current_day_key st = sha256 (past_keys st ! 0))
       \<and> (\<forall>i. i + 1 < length (past_keys st) \<longrightarrow>
              past_keys st ! i = sha256 (past_keys st ! (i + 1)))
       \<and> chained (current_day_key st) (past_keys st)
       \<and> chained (current_day_key (lc_step op st)) (past_keys (lc_step op st))
       \<and> (fst (lc_get_tracing_information t' l True g' st) \<noteq>
              Inl (ValueError ''The requested tracing key is not available'') \<longrightarrow>
            past_keys (snd (lc_get_tracing_information t' l True g' st)) = [])"
proof -
  have c: "chained (current_day_key st) (past_keys st)"
    unfolding assms by (rule chained_run) (rule chained_init)
  have "past_keys st \<noteq> [] \<longrightarrow> current_day_key st = sha256 (past_keys st ! 0)"
    using chained_hd [OF c] by (simp add: next_day_key_def)
  moreover have "\<forall>i. i + 1 < length (past_keys st) \<longrightarrow>
              past_keys st ! i = sha256 (past_keys st ! (i + 1))"
    using chained_nth [OF c] by (simp add: next_day_key_def)
  moreover have "chained (current_day_key (lc_step op st)) (past_keys (lc_step op st))"
    using c by (rule chained_step)
  moreover have "fst (lc_get_tracing_information t' l True g' st) \<noteq>
              Inl (ValueError ''The requested tracing key is not available'') \<longrightarrow>
            past_keys (snd (lc_get_tracing_information t' l True g' st)) = []"
    by (auto simp: lc_get_tracing_information_def Let_def py_getitem_def
             split: prod.splits sum.splits if_splits)
  ultimately show ?thesis using c by blast
qed

theorem lc_key_chain_witness:
  "past_keys lc_example \<noteq> [] \<and> (0::nat) + 1 < length (past_keys lc_example)
   \<and> current_day_key lc_example = sha256 (past_keys lc_example ! 0)
   \<and> past_keys lc_example ! 0 = sha256 (past_keys lc_example ! (0 + 1))
   \<and> fst (lc_get_tracing_information 0 None True zero_entropy lc_example) \<noteq>
              Inl (ValueError ''The requested tracing key is not available'')
   \<and> past_keys (snd (lc_get_tracing_information 0 None True zero_entropy lc_example)) = []"
proof -
  note t = lc_key_chain [of lc_example "[NextDay zero_entropy, NextDay zero_entropy]" 0 zero_entropy
             "GetEphidForTime 0" 0 None zero_entropy, unfolded lc_example_def [symmetric], OF refl]
  have ne: "past_keys lc_example \<noteq> []" and len: "(0::nat) + 1 < length (past_keys lc_example)"
    by (simp_all add: lc_example_fields)
  have ok: "fst (lc_get_tracing_information 0 None True zero_entropy lc_example) \<noteq>
              Inl (ValueError ''The requested tracing key is not available'')"
    by (simp add: lc_get_tracing_information_def lc_example_fields day_start_zero
          SECONDS_PER_DAY_def py_getitem_def Let_def split: prod.splits)
  from t ne len ok show ?thesis by blast
qed

section \<open>Dictionaries\<close>

lemma fold_delete_filter:
  "fold AList.delete ks d = filter (\<lambda>p. fst p \<notin> set ks) d"
proof (induction ks arbitrary: d)
  case Nil
  then show ?case by simp
next
  case (Cons k ks)
  have "AList.delete k d = filter (\<lambda>p. fst p \<noteq> k) d"
    by (auto simp: AList.delete_eq intro: filter_cong)
  then show ?case using Cons.IH [of "AList.delete k d"]
    by (auto intro: filter_cong)
qed

lemma fold_delete_own_keys:
  "fold AList.delete (filter P (map fst d)) d = filter (\<lambda>p. \<not> P (fst p)) d"
  unfolding fold_delete_filter by (rule filter_cong) auto

lemma keys_fold_delete_own:
  "fst ` set (fold AList.delete (filter P (map fst d)) d) = {k \<in> fst ` set d. \<not> P k}"
  unfolding fold_delete_own_keys by auto






section \<open>Unlinkable tracer: the new day\<close>

lemma create_fold_fields:
  "fold (\<lambda>r s. s\<lparr>seeds_per_epoch := AList.update (a + int r) (ss ! r) (seeds_per_epoch s),
                  ephids_per_epoch := AList.update (a + int r) (es ! r) (ephids_per_epoch s)\<rparr>) rs st
   = st\<lparr>seeds_per_epoch := fold (\<lambda>r. AList.update (a + int r) (ss ! r)) rs (seeds_per_epoch st),
        ephids_per_epoch := fold (\<lambda>r. AList.update (a + int r) (es ! r)) rs (ephids_per_epoch st)\<rparr>"
  by (induction rs arbitrary: st) simp_all

lemma create_new_day_ephids_eq:
  "create_new_day_ephids g st =
     st\<lparr>seeds_per_epoch :=
          fold (\<lambda>r. AList.update (epoch_from_time (unl_start_of_today st) + int r)
                      (fst (new_seeds NUM_EPOCHS_PER_DAY g) ! r))
            [0..<NUM_EPOCHS_PER_DAY] (seeds_per_epoch st),
        ephids_per_epoch :=
          fold (\<lambda>r. AList.update (epoch_from_time (unl_start_of_today st) + int r)
                      (map ephid_from_seed (fst (new_seeds NUM_EPOCHS_PER_DAY g)) ! r))
            [0..<NUM_EPOCHS_PER_DAY] (ephids_per_epoch st)\<rparr>"
  by (simp add: create_new_day_ephids_def Let_def create_fold_fields)

lemma create_new_day_ephids_other [simp]:
  "observations_per_day (create_new_day_ephids g st) = observations_per_day st"
  "unl_start_of_today (create_new_day_ephids g st) = unl_start_of_today st"
  "today (create_new_day_ephids g st) = today st"
  by (simp_all add: create_new_day_ephids_eq today_def)


lemma generate_new_seed_length: "length (fst (generate_new_seed g)) = 32"
  by (simp add: generate_new_seed_def token_bytes_def urandom_def)

lemma new_seeds_each: "\<forall>s \<in> set (fst (new_seeds n g)). length s = 32"
proof (induction n arbitrary: g)
  case 0
  then show ?case by simp
next
  case (Suc n)
  obtain s0 g0 where a: "generate_new_seed g = (s0, g0)" by (cases "generate_new_seed g")
  obtain ss g1 where b: "new_seeds n g0 = (ss, g1)" by (cases "new_seeds n g0")
  have "length s0 = 32" using generate_new_seed_length [of g] a by simp
  moreover have "\<forall>x \<in> set ss. length x = 32" using Suc [of g0] b by simp
  ultimately show ?case using a b by simp
qed




section \<open>Unlinkable tracer: the next day\<close>





section \<open>Unlinkable tracer: invariants\<close>













lemma unl_add_observation_days:
  "fst ` set (observations_per_day (snd (unl_add_observation e t st)))
     \<subseteq> insert (today st) (fst ` set (observations_per_day st))"
  by (auto simp: unl_add_observation_def Let_def today_def dom_update split: sum.splits if_splits)














section \<open>EphIDs of other days\<close>





section \<open>Errors and the state of the tracer\<close>

lemma lc_add_observation_atomic:
  "fst (lc_add_observation e t g st) = Inl err \<Longrightarrow> snd (lc_add_observation e t g st) = st"
  by (cases "start_of_today st \<le> batch_start_from_time t \<and>
             batch_start_from_time t < start_of_today st + SECONDS_PER_DAY")
     (simp_all add: lc_add_observation_def Let_def)

lemma lc_get_tracing_information_atomic:
  "fst (lc_get_tracing_information t l r g st) = Inl err \<Longrightarrow>
   snd (lc_get_tracing_information t l r g st) = st"
  by (auto simp: lc_get_tracing_information_def Let_def split: if_splits sum.splits)

text \<open>
  C2. On the unlinkable tracer \<open>add_observation\<close> creates the empty list of the
  current day before it checks the day of the observation: on a new tracer started at
  time 0, an observation of the next day raises the ValueError and leaves
  \<open>observations_per_day\<close> with the key of the current day, where it had none.
\<close>

theorem unl_add_observation_changes_state_on_error:
  "fst (unl_add_observation (replicate 16 0) 86400000000 (unl_init 0 zero_entropy)) =
     Inl (ValueError ''Observation must correspond to current day'')
   \<and> observations_per_day (unl_init 0 zero_entropy) = []
   \<and> observations_per_day
        (snd (unl_add_observation (replicate 16 0) 86400000000 (unl_init 0 zero_entropy))) = [(0, [])]"
proof -
  have o: "observations_per_day (unl_init 0 zero_entropy) = []"
    and t: "today (unl_init 0 zero_entropy) = 0"
    by (simp_all add: unl_init_def today_def date_of_def)
  have t1: "today (unl_init 0 zero_entropy\<lparr>observations_per_day := x\<rparr>) = 0" for x
    by (simp add: unl_init_def today_def date_of_def)
  have d: "date_of 86400000000 = 1" by (simp add: date_of_def)
  show ?thesis
    by (simp add: unl_add_observation_def Let_def o t t1 d)
qed

end
